theory Spec2Isabelle
  imports Main
begin

section \<open>The tree of target code\<close>

text \<open>
  The generator of \<^verbatim>\<open>src/cyk.cc\<close> builds a tree of statements and expressions of
  the target language and never runs it. The node classes it instantiates
  (\<^verbatim>\<open>Type::*\<close>, \<^verbatim>\<open>Expr::*\<close>, \<^verbatim>\<open>Statement::*\<close>) are declared outside the
  files at hand; each is represented by one constructor carrying the arguments
  that \<^verbatim>\<open>cyk.cc\<close> passes to it. A name held through a \<^verbatim>\<open>std::string*\<close> is a
  \<^typ>\<open>string\<close>: the running indices are shared objects, so comparing the pointers
  (as \<^verbatim>\<open>std::find\<close> does in \<^verbatim>\<open>add_nt_calls\<close>) is comparing the names.
  Statements are never aliased: every nested body is inserted as a deep copy
  (\<^verbatim>\<open>copy_statements\<close>), so in-place mutation is modelled by returning the
  updated tree.
\<close>

datatype type_base = Type_Size | Type_Int | Type_External string | Type_RealVoid

datatype expr =
    Expr_Const int
  | Expr_Vacc string
  | Expr_Plus expr expr
  | Expr_Minus expr expr
  | Expr_Times expr expr
  | Expr_Div expr expr
  | Expr_Less expr expr
  | Expr_Greater expr expr
  | Expr_Or expr expr
  | Expr_Not expr
  | Expr_Cond expr expr expr
  | Expr_Fn_Call string "string list" bool

text \<open>\<^verbatim>\<open>Expr::Base::plus\<close> and \<^verbatim>\<open>minus\<close> wrap both operands in a new node.\<close>

definition expr_plus :: "expr \<Rightarrow> expr \<Rightarrow> expr" where
  "expr_plus a b = Expr_Plus a b"

definition expr_minus :: "expr \<Rightarrow> expr \<Rightarrow> expr" where
  "expr_minus a b = Expr_Minus a b"

record var_decl =
  vd_type :: type_base
  vd_name :: string
  vd_rhs :: expr

datatype assign_op = OP_EQ | OP_PLUS

record var_assign =
  va_name :: string
  va_op :: assign_op
  va_rhs :: expr

datatype stmt =
    Var_Decl var_decl
  | Var_Assign var_assign
  | For var_decl expr "var_assign option" "stmt list"
  | Fn_Call string "expr list" bool
  | CustomCode string
  | Block "stmt list"

record Fn_Def =
  fn_return_type :: type_base
  fn_name :: string
  fn_stmts :: "stmt list"

section \<open>Failures of the generator\<close>

text \<open>
  An \<^verbatim>\<open>assert\<close> that fails, a \<^verbatim>\<open>vector::at\<close> out of range (it throws) and
  an operation the language leaves undefined (\<^verbatim>\<open>operator[]\<close> out of range,
  incrementing a past-the-end iterator) each end the generation.
\<close>

datatype error = AssertionFailed | OutOfRange | UndefinedBehaviour

definition and_then :: "error + 'a \<Rightarrow> ('a \<Rightarrow> error + 'b) \<Rightarrow> error + 'b" where
  "and_then m f = (case m of Inl e \<Rightarrow> Inl e | Inr x \<Rightarrow> f x)"

definition at :: "'a list \<Rightarrow> nat \<Rightarrow> error + 'a" where
  "at xs i = (if i < length xs then Inr (xs ! i) else Inl OutOfRange)"

definition subscript :: "'a list \<Rightarrow> nat \<Rightarrow> error + 'a" where
  "subscript xs i = (if i < length xs then Inr (xs ! i) else Inl UndefinedBehaviour)"

section \<open>The grammar as the generator reads it\<close>

record table =
  delete_left_index :: bool
  delete_right_index :: bool

record NT =
  nt_tracks :: nat
  is_tabulated :: bool
  tables :: "table list"
  left_indices :: "string list"
  right_indices :: "string list"
  code_list :: "string list"

text \<open>
  Modelled from the spec: \<^verbatim>\<open>Yield::Size\<close> and \<^verbatim>\<open>Yield::Poly\<close> are declared
  in a file that is not at hand. The lower bound \<^verbatim>\<open>low()\<close> of a yield size is a
  natural number, which \<^verbatim>\<open>put\<close> prints in decimal.
\<close>

record Yield_Size =
  low :: nat

text \<open>The axiom, as far as it is read: \<^verbatim>\<open>tracks()\<close> and \<^verbatim>\<open>multi_ys()\<close>.\<close>

record Axiom =
  tracks :: nat
  multi_ys :: "Yield_Size list"

datatype Loc = Loc string nat

record Grammar =
  grammar_name :: string
  location :: Loc
  grammar_axiom :: Axiom
  left_running_indices :: "string list"
  right_running_indices :: "string list"
  topological_ord :: "NT list"

record Checkpoint =
  cp_cyk :: bool

record AST =
  ast_cyk :: bool
  ast_checkpoint :: "Checkpoint option"
  outside_generation :: bool
  grammar :: Grammar
  seq_decls :: "var_decl list"

text \<open>The test \<^verbatim>\<open>ast.checkpoint && ast.checkpoint->cyk\<close>.\<close>

definition checkpoint_cyk :: "AST \<Rightarrow> bool" where
  "checkpoint_cyk ast = (case ast_checkpoint ast of None \<Rightarrow> False | Some c \<Rightarrow> cp_cyk c)"

section \<open>Locks and the tile computation\<close>

definition MUTEX :: string where "MUTEX = ''mutex''"
definition VARNAME_OuterLoop1 :: string where "VARNAME_OuterLoop1 = ''outer_loop_1_idx''"
definition VARNAME_OuterLoop2 :: string where "VARNAME_OuterLoop2 = ''outer_loop_2_idx''"
definition VARNAME_InnerLoop2 :: string where "VARNAME_InnerLoop2 = ''inner_loop_2_idx''"

definition mutex_lock :: stmt where
  "mutex_lock = Fn_Call ''lock_shared'' [Expr_Vacc MUTEX] True"

definition mutex_unlock :: stmt where
  "mutex_unlock = Fn_Call ''unlock_shared'' [Expr_Vacc MUTEX] True"

definition seq_size :: "var_decl \<Rightarrow> expr" where
  "seq_size s = Expr_Fn_Call ''size'' [vd_name s] True"

definition get_tile_computation ::
  "AST \<Rightarrow> string \<Rightarrow> var_decl \<Rightarrow> bool \<Rightarrow> stmt list \<times> var_decl" where
  "get_tile_computation ast name_maxtilen input_seq just_tilesize =
    (let tile_size = \<lparr>vd_type = Type_Size, vd_name = ''tile_size'', vd_rhs = Expr_Const 32\<rparr>;
         res1 = (if \<not> checkpoint_cyk ast \<or> just_tilesize
                 then [Var_Decl tile_size,
                       CustomCode ''#ifdef TILE_SIZE'',
                       Var_Assign \<lparr>va_name = vd_name tile_size, va_op = OP_EQ,
                                   va_rhs = Expr_Vacc ''TILE_SIZE''\<rparr>,
                       CustomCode ''#endif'']
                 else [])
     in if (\<not> checkpoint_cyk ast \<or> just_tilesize) \<and> just_tilesize then (res1, tile_size)
        else
          (let end_expr = seq_size input_seq;
               max_tiles = \<lparr>vd_type = Type_Size, vd_name = ''max_tiles'',
                            vd_rhs = Expr_Div end_expr (Expr_Vacc (vd_name tile_size))\<rparr>;
               max_tiles_n = \<lparr>vd_type = Type_Int, vd_name = name_maxtilen,
                              vd_rhs = Expr_Times (Expr_Vacc (vd_name max_tiles))
                                                  (Expr_Vacc (vd_name tile_size))\<rparr>
           in (res1 @ [Fn_Call ''assert'' [Expr_Vacc (vd_name tile_size)] False,
                       Var_Decl max_tiles, Var_Decl max_tiles_n],
               tile_size)))"

definition copy_statements :: "stmt list \<Rightarrow> stmt list" where
  "copy_statements other = map (\<lambda>s. s) other"

section \<open>Loops and their end states\<close>

record CYKloop =
  loop :: stmt
  end_state :: var_decl

fun loop_var_name :: "stmt \<Rightarrow> string option" where
  "loop_var_name (For vd c inc body) = Some (vd_name vd)"
| "loop_var_name _ = None"

text \<open>The constructor of \<^verbatim>\<open>CYKloop\<close> asserts that both parts name one variable.\<close>

definition CYKloop_ctor :: "stmt \<Rightarrow> var_decl \<Rightarrow> error + CYKloop" where
  "CYKloop_ctor l e =
    (if loop_var_name l = Some (vd_name e) then Inr \<lparr>loop = l, end_state = e\<rparr>
     else Inl AssertionFailed)"

datatype CYKmode = SINGLETHREAD | OPENMP_PARALLEL | OPENMP_SERIAL | SINGLETHREAD_OUTSIDE

definition get_for_column ::
  "string \<Rightarrow> expr \<Rightarrow> expr \<Rightarrow> bool \<Rightarrow> CYKmode \<Rightarrow> error + CYKloop" where
  "get_for_column running_boundary start end_expr with_checkpoint mode =
    (let hack = (with_checkpoint \<and> mode \<noteq> OPENMP_PARALLEL);
         t = (if hack then Type_External [] else Type_Size);
         start1 = (if hack
                   then Expr_Cond (Expr_Vacc (running_boundary @ ''_loaded++'')) start
                                  (Expr_Vacc running_boundary)
                   else start);
         var_col = \<lparr>vd_type = t, vd_name = running_boundary, vd_rhs = start1\<rparr>;
         cond_col = Expr_Less (Expr_Vacc (vd_name var_col)) end_expr;
         l = For var_col cond_col None [];
         var_nonloop = var_col\<lparr>vd_rhs := end_expr\<rparr>
     in CYKloop_ctor l var_nonloop)"

definition get_for_row ::
  "string \<Rightarrow> expr \<Rightarrow> expr \<Rightarrow> bool \<Rightarrow> CYKmode \<Rightarrow> error + CYKloop" where
  "get_for_row running_boundary start end_expr with_checkpoint mode =
    (let t0 = (if mode = OPENMP_PARALLEL then Type_Int else Type_Size);
         hack = (with_checkpoint \<and> mode \<noteq> OPENMP_PARALLEL);
         t = (if hack then Type_External [] else t0);
         start1 = (if hack
                   then Expr_Cond (Expr_Vacc (running_boundary @ ''_loaded++'')) start
                                  (Expr_Vacc running_boundary)
                   else start);
         var_row = \<lparr>vd_type = t, vd_name = running_boundary, vd_rhs = start1\<rparr>;
         cond_row = (if mode = SINGLETHREAD_OUTSIDE
                     then Expr_Less (Expr_Vacc (vd_name var_row)) end_expr
                     else Expr_Greater (Expr_Vacc (vd_name var_row)) end_expr);
         inc = (if mode \<noteq> SINGLETHREAD_OUTSIDE
                then Some \<lparr>va_name = vd_name var_row, va_op = OP_PLUS,
                           va_rhs = Expr_Const (- 1)\<rparr>
                else None);
         l = For var_row cond_row inc [];
         var_nonloop = var_row\<lparr>vd_rhs := Expr_Const 1\<rparr>
     in CYKloop_ctor l var_nonloop)"

definition get_for_openMP :: "string \<Rightarrow> expr \<Rightarrow> expr \<Rightarrow> var_decl \<Rightarrow> stmt" where
  "get_for_openMP loopvar start end_expr inc =
    (let var = \<lparr>vd_type = Type_Int, vd_name = loopvar, vd_rhs = start\<rparr>;
         cond_row = Expr_Less (Expr_Vacc (vd_name var)) end_expr;
         x = \<lparr>va_name = vd_name var, va_op = OP_PLUS, va_rhs = Expr_Vacc (vd_name inc)\<rparr>
     in For var cond_row (Some x) [])"

text \<open>Appending to \<^verbatim>\<open>loop->statements\<close>.\<close>

fun push_back :: "stmt \<Rightarrow> stmt list \<Rightarrow> stmt" where
  "push_back (For vd c inc body) new = For vd c inc (body @ new)"
| "push_back (Block body) new = Block (body @ new)"
| "push_back s new = s"

section \<open>Traversal of one track\<close>

text \<open>
  \<^verbatim>\<open>cyk_traversal_singlethread_singletrack\<close>: the column loop holding the row
  loop (A), the row's end state and the body again (B); the column's end state;
  the row loop of the last column (C) and its end state; the body once more (D).
\<close>

definition cyk_traversal_singlethread_singletrack ::
  "nat \<Rightarrow> AST \<Rightarrow> var_decl \<Rightarrow> stmt list \<Rightarrow> bool \<Rightarrow> CYKmode \<Rightarrow> error + stmt list" where
  "cyk_traversal_singlethread_singletrack track ast seq nested_stmts with_checkpoint mode =
    and_then (at (right_running_indices (grammar ast)) track) (\<lambda>r0.
    let row_start = expr_plus (Expr_Vacc r0) (Expr_Const 1);
        seqend = seq_size seq
    in
    and_then (subscript (left_running_indices (grammar ast)) track) (\<lambda>l1.
    and_then (get_for_row l1 row_start (Expr_Const 1) with_checkpoint mode) (\<lambda>row.
    let row_loop = push_back (loop row) (copy_statements nested_stmts);
        alt_start = (if mode = OPENMP_SERIAL then Expr_Vacc ''max_tiles_n'' else Expr_Const 0)
    in
    and_then (subscript (right_running_indices (grammar ast)) track) (\<lambda>r1.
    and_then (get_for_column r1 alt_start seqend with_checkpoint mode) (\<lambda>col.
    let col_loop = push_back (loop col)
                     ([row_loop, Var_Decl (end_state row)] @ copy_statements nested_stmts);
        stmts = [col_loop, Var_Decl (end_state col)]
    in
    and_then (subscript (left_running_indices (grammar ast)) track) (\<lambda>l2.
    and_then (get_for_row l2 row_start (Expr_Const 1) with_checkpoint mode) (\<lambda>rowC.
    let rowC_loop = push_back (loop rowC) (copy_statements nested_stmts)
    in Inr (stmts @ [rowC_loop, Var_Decl (end_state rowC)]
                  @ copy_statements nested_stmts))))))))"

definition cyk_traversal_singlethread_singletrack_outside ::
  "nat \<Rightarrow> AST \<Rightarrow> var_decl \<Rightarrow> stmt list \<Rightarrow> bool \<Rightarrow> CYKmode \<Rightarrow> error + stmt list" where
  "cyk_traversal_singlethread_singletrack_outside track ast seq nested_stmts with_checkpoint mode =
    (let seqend = seq_size seq in
    and_then (subscript (right_running_indices (grammar ast)) track) (\<lambda>r1.
    and_then (subscript (left_running_indices (grammar ast)) track) (\<lambda>l1.
    and_then (get_for_column r1 (expr_minus seqend (Expr_Vacc l1))
                (expr_plus seqend (Expr_Const 1)) with_checkpoint mode) (\<lambda>col.
    let col_loop = push_back (loop col) (copy_statements nested_stmts)
    in
    and_then (subscript (left_running_indices (grammar ast)) track) (\<lambda>l2.
    and_then (get_for_row l2 (Expr_Const 0) (expr_plus seqend (Expr_Const 1))
                with_checkpoint mode) (\<lambda>row.
    Inr [push_back (loop row) [col_loop]]))))))"

text \<open>
  \<^verbatim>\<open>cyk_traversal_singlethread\<close> walks the tracks from the last to the first, each
  step wrapping what is built so far; the sequence declarations are walked by a
  reverse iterator, which the assertion keeps in step with the track.
\<close>

primrec cyk_traversal_tracks :: "AST \<Rightarrow> CYKmode \<Rightarrow> nat \<Rightarrow> stmt list \<Rightarrow> error + stmt list" where
  "cyk_traversal_tracks ast mode 0 stmts = Inr stmts"
| "cyk_traversal_tracks ast mode (Suc track) stmts =
    and_then
      (if mode = SINGLETHREAD_OUTSIDE
       then cyk_traversal_singlethread_singletrack_outside track ast (seq_decls ast ! track)
              stmts (checkpoint_cyk ast) mode
       else cyk_traversal_singlethread_singletrack track ast (seq_decls ast ! track)
              stmts (checkpoint_cyk ast) mode)
      (cyk_traversal_tracks ast mode track)"

definition cyk_traversal_singlethread :: "AST \<Rightarrow> CYKmode \<Rightarrow> error + stmt list" where
  "cyk_traversal_singlethread ast mode =
    (if length (seq_decls ast) \<noteq> tracks (grammar_axiom (grammar ast)) then Inl AssertionFailed
     else cyk_traversal_tracks ast mode (tracks (grammar_axiom (grammar ast))) [])"

section \<open>The tiled traversal\<close>

definition cyk_traversal_multithread_parallel ::
  "AST \<Rightarrow> var_decl \<Rightarrow> var_decl \<Rightarrow> string \<Rightarrow> bool \<Rightarrow> error + stmt list" where
  "cyk_traversal_multithread_parallel ast seq tile_size name_maxtilen with_checkpoint =
    (let track = 0 in
    and_then (at (right_running_indices (grammar ast)) track) (\<lambda>r0.
    let row_start = expr_plus (Expr_Vacc r0) (Expr_Const 1);
        z = Expr_Vacc ''z'';
        y = Expr_Vacc ''y'';
        ts = Expr_Vacc (vd_name tile_size);
        x = \<lparr>vd_type = Type_Size, vd_name = ''x'',
             vd_rhs = expr_plus (expr_minus y z) ts\<rparr>
    in
    and_then (subscript (left_running_indices (grammar ast)) track) (\<lambda>l1.
    and_then (get_for_row l1 row_start z with_checkpoint OPENMP_PARALLEL) (\<lambda>row.
    and_then (subscript (right_running_indices (grammar ast)) track) (\<lambda>r1.
    and_then (get_for_column r1 z (expr_plus z ts) with_checkpoint OPENMP_PARALLEL) (\<lambda>col.
    let col_loop = push_back (loop col) [loop row];
        start_z = (if with_checkpoint then Expr_Vacc (VARNAME_OuterLoop1 @ ''_start'')
                   else Expr_Const 0);
        loop_z = push_back (get_for_openMP ''z'' start_z (Expr_Vacc name_maxtilen) tile_size)
                   ((if with_checkpoint then [mutex_lock] else [])
                    @ [col_loop]
                    @ (if with_checkpoint
                       then [CustomCode ''#pragma omp ordered'',
                             Block [CustomCode
  ''// force omp to wait for all threads to finish their current batch (of size tile_size)'',
                                    Var_Assign \<lparr>va_name = VARNAME_OuterLoop1, va_op = OP_EQ,
                                                va_rhs = expr_plus start_z ts\<rparr>,
                                    mutex_unlock]]
                       else []))
    in
    and_then (subscript (left_running_indices (grammar ast)) track) (\<lambda>l2.
    and_then (get_for_row l2 (Expr_Vacc (vd_name x))
                (expr_minus (Expr_Vacc (vd_name x)) ts)
                with_checkpoint OPENMP_PARALLEL) (\<lambda>rowB.
    and_then (subscript (right_running_indices (grammar ast)) track) (\<lambda>r2.
    and_then (get_for_column r2 y (expr_plus y ts) with_checkpoint OPENMP_PARALLEL) (\<lambda>colB.
    let colB_loop = push_back (loop colB) [loop rowB];
        start_y = (if with_checkpoint
                   then Expr_Cond (Expr_Vacc (VARNAME_InnerLoop2 @ ''_loaded'')) z
                          (Expr_Vacc (VARNAME_InnerLoop2 @ ''_start''))
                   else z);
        loop_y = push_back (get_for_openMP ''y'' start_y (Expr_Vacc name_maxtilen) tile_size)
                   ((if with_checkpoint
                     then [CustomCode ''++inner_loop_2_idx_loaded;'', mutex_lock] else [])
                    @ [Var_Decl x, colB_loop]
                    @ (if with_checkpoint
                       then [CustomCode ''#pragma omp ordered'',
                             Block [Var_Assign \<lparr>va_name = VARNAME_InnerLoop2, va_op = OP_EQ,
                                                va_rhs = expr_plus (Expr_Vacc VARNAME_InnerLoop2) ts\<rparr>,
                                    Var_Assign \<lparr>va_name = VARNAME_OuterLoop2, va_op = OP_EQ,
                                                va_rhs = z\<rparr>,
                                    mutex_unlock]]
                       else []));
        start_z2 = (if with_checkpoint then Expr_Vacc (VARNAME_OuterLoop2 @ ''_start'')
                    else ts);
        loop_z2 = push_back (get_for_openMP ''z'' start_z2 (Expr_Vacc name_maxtilen) tile_size)
                    ([CustomCode (if with_checkpoint
                                  then ''#pragma omp for ordered schedule(dynamic)''
                                  else ''#pragma omp for''),
                      loop_y]
                     @ (if with_checkpoint
                        then [Var_Assign \<lparr>va_name = VARNAME_InnerLoop2, va_op = OP_EQ,
                                           va_rhs = expr_plus z ts\<rparr>]
                        else []))
    in Inr [loop_z, loop_z2]))))))))))"

section \<open>Placing the nonterminal calls\<close>

text \<open>\<^verbatim>\<open>name.find(p, 0) == 0\<close>: the name starts with \<open>p\<close>.\<close>

definition starts_with :: "string \<Rightarrow> string \<Rightarrow> bool" where
  "starts_with p name = (take (length p) name = p)"

fun is_FOR :: "stmt \<Rightarrow> bool" where
  "is_FOR (For vd c inc body) = True"
| "is_FOR _ = False"

fun is_nt_tabulate_call :: "stmt \<Rightarrow> bool" where
  "is_nt_tabulate_call (Fn_Call name args is_obj) = starts_with ''nt_tabulate_'' name"
| "is_nt_tabulate_call _ = False"

fun count_statements :: "stmt list \<Rightarrow> nat" where
  "count_statements [] = 0"
| "count_statements (s # rest) =
    (if is_nt_tabulate_call s then 1 else 0) + (if is_FOR s then 1 else 0)
      + count_statements rest"

fun count_nt_calls_and_loops :: "stmt \<Rightarrow> nat" where
  "count_nt_calls_and_loops (For vd c inc body) = count_statements body"
| "count_nt_calls_and_loops _ = 0"

text \<open>
  The pruning loop of \<^verbatim>\<open>add_nt_calls\<close>. After \<^verbatim>\<open>s = stmts.erase(s)\<close> the
  iterator stands on the statement after the erased loop, and the loop header's
  \<^verbatim>\<open>++s\<close> steps over it. When the erased loop was the last statement,
  \<^verbatim>\<open>erase\<close> returns \<^verbatim>\<open>end()\<close> and the increment is undefined.
\<close>

fun erase_loops :: "stmt list \<Rightarrow> error + stmt list" where
  "erase_loops [] = Inr []"
| "erase_loops (s # rest) =
    (if is_FOR s \<and> count_nt_calls_and_loops s = 0
     then (case rest of
             [] \<Rightarrow> Inl UndefinedBehaviour
           | r # rest' \<Rightarrow> and_then (erase_loops rest') (\<lambda>xs. Inr (r # xs)))
     else and_then (erase_loops rest) (\<lambda>xs. Inr (s # xs)))"

text \<open>
  The loop over the tracks of one nonterminal: the arguments collected so far, the
  number of its indices bound by a loop variable, and the number of its indices.
\<close>

definition nt_track ::
  "NT \<Rightarrow> string list \<Rightarrow> nat \<Rightarrow> expr list \<times> nat \<times> nat \<Rightarrow> error + (expr list \<times> nat \<times> nat)" where
  "nt_track nt loop_vars t acc =
    and_then (subscript (tables nt) t) (\<lambda>tab.
    and_then
      (if \<not> delete_left_index tab
       then and_then (at (left_indices nt) t) (\<lambda>idx.
              case acc of (args, used_indices, nt_has_indices) \<Rightarrow>
                Inr (args @ [expr_minus (Expr_Vacc idx) (Expr_Const 1)],
                     (if idx \<in> set loop_vars then used_indices + 1 else used_indices),
                     nt_has_indices + 1))
       else Inr acc) (\<lambda>acc1.
    if \<not> delete_right_index tab
    then and_then (at (right_indices nt) t) (\<lambda>idx.
           case acc1 of (args, used_indices, nt_has_indices) \<Rightarrow>
             Inr (args @ [Expr_Vacc idx],
                  (if idx \<in> set loop_vars then used_indices + 1 else used_indices),
                  nt_has_indices + 1))
    else Inr acc1))"

fun nt_tracks_loop ::
  "NT \<Rightarrow> string list \<Rightarrow> nat list \<Rightarrow> expr list \<times> nat \<times> nat \<Rightarrow> error + (expr list \<times> nat \<times> nat)" where
  "nt_tracks_loop nt loop_vars [] acc = Inr acc"
| "nt_tracks_loop nt loop_vars (t # ts) acc =
    and_then (nt_track nt loop_vars t acc) (nt_tracks_loop nt loop_vars ts)"

fun nt_calls :: "NT list \<Rightarrow> string list \<Rightarrow> error + stmt list" where
  "nt_calls [] loop_vars = Inr []"
| "nt_calls (nt # rest) loop_vars =
    (if \<not> is_tabulated nt then nt_calls rest loop_vars
     else and_then (nt_tracks_loop nt loop_vars [0 ..< nt_tracks nt] ([], 0, 0)) (\<lambda>acc.
            case acc of (args, used_indices, nt_has_indices) \<Rightarrow>
              if used_indices = length loop_vars
              then (if code_list nt = [] then Inl AssertionFailed
                    else and_then (nt_calls rest loop_vars) (\<lambda>calls.
                           Inr (Fn_Call (last (code_list nt)) args False # calls)))
              else nt_calls rest loop_vars))"

definition nt_stmts_of :: "string list \<Rightarrow> NT list \<Rightarrow> bool \<Rightarrow> CYKmode \<Rightarrow> error + stmt list" where
  "nt_stmts_of loop_vars orderedNTs with_checkpoint mode =
    and_then (nt_calls orderedNTs loop_vars) (\<lambda>calls.
      Inr ((if with_checkpoint
            then (if mode = SINGLETHREAD
                  then [CustomCode ''std::lock_guard<fair_mutex> lock(mutex);'']
                  else if mode = OPENMP_SERIAL then [mutex_lock] else [])
            else [])
           @ calls
           @ (if with_checkpoint \<and> mode = OPENMP_SERIAL then [mutex_unlock] else [])))"

text \<open>
  \<^verbatim>\<open>add_nt_calls\<close> returns the statements to append at the caller's level; the
  list it was given is changed in place, so the model returns it as well.
  \<^verbatim>\<open>nested_loops\<close> is the first loop of the function: it descends into every
  \<^verbatim>\<open>For\<close> and appends what the recursive call returns to that loop's body.
\<close>

fun add_nt_calls ::
    "stmt list \<Rightarrow> string list \<Rightarrow> NT list \<Rightarrow> bool \<Rightarrow> CYKmode \<Rightarrow> error + (stmt list \<times> stmt list)"
  and nested_loops ::
    "stmt list \<Rightarrow> string list \<Rightarrow> NT list \<Rightarrow> bool \<Rightarrow> CYKmode \<Rightarrow> error + stmt list"
where
  "add_nt_calls stmts loop_vars orderedNTs with_checkpoint mode =
    and_then (nested_loops stmts loop_vars orderedNTs with_checkpoint mode) (\<lambda>stmts1.
    and_then (erase_loops stmts1) (\<lambda>stmts2.
    if mode = OPENMP_PARALLEL \<and> list_ex is_FOR stmts then Inr (stmts2, [])
    else and_then (nt_stmts_of loop_vars orderedNTs with_checkpoint mode) (\<lambda>nt_stmts.
           Inr (stmts2, nt_stmts))))"
| "nested_loops [] loop_vars orderedNTs with_checkpoint mode = Inr []"
| "nested_loops (For vd c inc body # rest) loop_vars orderedNTs with_checkpoint mode =
    (let next_loop_vars =
           (if mode \<noteq> OPENMP_PARALLEL \<or> starts_with ''t_'' (vd_name vd)
            then loop_vars @ [vd_name vd] else loop_vars)
     in and_then (add_nt_calls body next_loop_vars orderedNTs with_checkpoint mode) (\<lambda>res.
        and_then (nested_loops rest loop_vars orderedNTs with_checkpoint mode) (\<lambda>rest'.
          Inr (For vd c inc (fst res @ snd res) # rest'))))"
| "nested_loops (s # rest) loop_vars orderedNTs with_checkpoint mode =
    and_then (nested_loops rest loop_vars orderedNTs with_checkpoint mode) (\<lambda>rest'.
      Inr (s # rest'))"

section \<open>The function \<^verbatim>\<open>cyk\<close>\<close>

definition loaded_flag :: "string \<Rightarrow> stmt" where
  "loaded_flag idx =
    Var_Decl \<lparr>vd_type = Type_Int, vd_name = idx @ ''_loaded'',
              vd_rhs = Expr_Or (Expr_Not (Expr_Vacc ''load_checkpoint''))
                               (Expr_Not (Expr_Vacc idx))\<rparr>"

fun loaded_flags :: "AST \<Rightarrow> nat list \<Rightarrow> error + stmt list" where
  "loaded_flags ast [] = Inr []"
| "loaded_flags ast (track # ts) =
    and_then (at (left_running_indices (grammar ast)) track) (\<lambda>l.
    and_then (at (right_running_indices (grammar ast)) track) (\<lambda>r.
    and_then (loaded_flags ast ts) (\<lambda>rest.
      Inr (loaded_flag l # loaded_flag r # rest))))"

definition checkpoint_header :: "stmt list" where
  "checkpoint_header =
    [CustomCode (''int '' @ VARNAME_OuterLoop1 @ ''_loaded = !load_checkpoint || !''
                 @ VARNAME_OuterLoop1 @ '';''),
     CustomCode (''int '' @ VARNAME_OuterLoop2 @ ''_loaded = !load_checkpoint || !''
                 @ VARNAME_OuterLoop2 @ '';''),
     CustomCode (''int '' @ VARNAME_InnerLoop2 @ ''_loaded = !load_checkpoint || !''
                 @ VARNAME_InnerLoop2 @ '';''),
     CustomCode (''int '' @ VARNAME_OuterLoop1 @ ''_start = ('' @ VARNAME_OuterLoop1
                 @ ''_loaded++) ? 0 : '' @ VARNAME_OuterLoop1 @ '';''),
     CustomCode (''int '' @ VARNAME_OuterLoop2 @ ''_start = ('' @ VARNAME_OuterLoop2
                 @ ''_loaded++) ? tile_size : '' @ VARNAME_OuterLoop2 @ '';''),
     CustomCode (''int '' @ VARNAME_InnerLoop2 @ ''_start = '' @ VARNAME_InnerLoop2 @ '';'')]"

text \<open>
  The branch of \<^verbatim>\<open>print_CYK\<close> taken when the axiom has exactly one track: the
  statements between \<^verbatim>\<open>#else\<close> and \<^verbatim>\<open>#endif\<close>.
\<close>

definition multi_thread_version :: "AST \<Rightarrow> error + stmt list" where
  "multi_thread_version ast =
    (let name_maxtilen = ''max_tiles_n'' in
    and_then (if seq_decls ast = [] then Inl UndefinedBehaviour
              else Inr (last (seq_decls ast))) (\<lambda>seq.
    let header = (if checkpoint_cyk ast
                  then fst (get_tile_computation ast name_maxtilen seq True) @ checkpoint_header
                  else []);
        stmts_tilesize = get_tile_computation ast name_maxtilen seq False
    in
    and_then (cyk_traversal_multithread_parallel ast seq (snd stmts_tilesize) name_maxtilen
                (checkpoint_cyk ast)) (\<lambda>stmts.
    and_then (add_nt_calls stmts [] (topological_ord (grammar ast)) (checkpoint_cyk ast)
                OPENMP_PARALLEL) (\<lambda>par.
    let blk_parallel = Block (fst stmts_tilesize
          @ [CustomCode (if checkpoint_cyk ast
                         then ''#pragma omp for ordered schedule(dynamic)''
                         else ''#pragma omp for''),
             CustomCode ''// OPENMP < 3 requires signed int here ...'']
          @ fst par @ snd par
          @ [CustomCode ''// end parallel''])
    in
    and_then (cyk_traversal_singlethread ast OPENMP_SERIAL) (\<lambda>serial_stmts.
    and_then (add_nt_calls serial_stmts [] (topological_ord (grammar ast)) (checkpoint_cyk ast)
                OPENMP_SERIAL) (\<lambda>ser.
      Inr (header @ [CustomCode ''#pragma omp parallel'', blk_parallel]
           @ fst stmts_tilesize @ fst ser @ snd ser)))))))"

definition print_CYK :: "AST \<Rightarrow> error + Fn_Def" where
  "print_CYK ast =
    (let fn_cyk = \<lparr>fn_return_type = Type_RealVoid, fn_name = ''cyk'', fn_stmts = []\<rparr> in
     if \<not> ast_cyk ast then Inr fn_cyk
     else
       and_then (if checkpoint_cyk ast
                 then loaded_flags ast [0 ..< tracks (grammar_axiom (grammar ast))]
                 else Inr []) (\<lambda>flags.
       and_then (cyk_traversal_singlethread ast
                   (if outside_generation ast then SINGLETHREAD_OUTSIDE else SINGLETHREAD))
         (\<lambda>stmts.
       and_then (if tracks (grammar_axiom (grammar ast)) = 1 then multi_thread_version ast
                 else Inr []) (\<lambda>multi.
         Inr (fn_cyk\<lparr>fn_stmts := flags @ [CustomCode ''#ifndef _OPENMP''] @ stmts
                                  @ [CustomCode ''#else''] @ multi
                                  @ [CustomCode ''#endif'']\<rparr>)))))"

section \<open>The check for the empty word\<close>

datatype log_entry = Log_warning Loc string | Log_error Loc string

definition digit :: "nat \<Rightarrow> char" where
  "digit d = ''0123456789'' ! (d mod 10)"

fun decimal :: "nat \<Rightarrow> string" where
  "decimal n = (if 10 \<le> n then decimal (n div 10) else []) @ [digit n]"

definition empty_word_msg :: "string \<Rightarrow> nat \<Rightarrow> string" where
  "empty_word_msg name l =
    ''The minimal yield size of your grammar '' @ [CHR 0x27] @ name @ [CHR 0x27] @ '' is ''
    @ decimal l
    @ '', i.e. it cannot parse the empty input string '' @ [CHR 0x27, CHR 0x27] @ ''.''
    @ '' For outside grammar generation, this means you are lacking a''
    @ '' recursion basis which will result in empty results for ''
    @ ''ALL outside candidates! Try adding an alternative like ''
    @ ''nil(EMPTY) to your axiom.''"

fun check_multi_ys :: "Grammar \<Rightarrow> Yield_Size list \<Rightarrow> log_entry list \<Rightarrow> bool \<times> log_entry list" where
  "check_multi_ys g [] lg = (True, lg)"
| "check_multi_ys g (i # rest) lg =
    (if low i > 0
     then (False, lg @ [Log_warning (location g) (empty_word_msg (grammar_name g) (low i))])
     else check_multi_ys g rest lg)"

text \<open>
  \<^verbatim>\<open>Grammar::check_outside_parse_empty_word\<close>; the grammar reaches its
  \<^verbatim>\<open>ast\<close> through a reference, the model is handed the \<^verbatim>\<open>AST\<close> and the log.
\<close>

definition check_outside_parse_empty_word ::
  "AST \<Rightarrow> log_entry list \<Rightarrow> bool \<times> log_entry list" where
  "check_outside_parse_empty_word ast lg =
    (if outside_generation ast
     then check_multi_ys (grammar ast) (multi_ys (grammar_axiom (grammar ast))) lg
     else (True, lg))"

section \<open>What the emitted statements compute\<close>

text \<open>
  The claims about visited cells, loop starts and end states speak of the program
  that the tree is printed as. Its statements are read as follows. Values are
  integers without wrap-around (the indices of a sequence of length \<open>n\<close> stay
  within \<open>0 .. n + 1\<close>). A variable access whose name ends in \<^verbatim>\<open>++\<close> is the
  post-increment the generator spells that way. A declaration assigns its
  variable in one flat store: the generator re-declares an index after each loop
  (the end state), so no read depends on a scope that has ended. A loop without
  an increment statement counts its variable up by one (\<^verbatim>\<open>++t_0_j\<close>, as the
  comments in \<^verbatim>\<open>get_for_column\<close> and \<^verbatim>\<open>get_for_row\<close> show). A call other
  than \<^verbatim>\<open>assert\<close> is recorded with the values of its arguments. The directives
  \<^verbatim>\<open>#ifdef M\<close> and \<^verbatim>\<open>#endif\<close> are honoured, unnested; pragmas and comments
  do nothing; other free text is not interpreted. \<open>None\<close> is a fault or a loop
  that outlasts the fuel.
\<close>

type_synonym store = "string \<Rightarrow> int"

definition is_postinc :: "string \<Rightarrow> bool" where
  "is_postinc x = (2 \<le> length x \<and> drop (length x - 2) x = ''++'')"

definition postinc_var :: "string \<Rightarrow> string" where
  "postinc_var x = take (length x - 2) x"

definition c_div :: "int \<Rightarrow> int \<Rightarrow> int" where
  "c_div a b = sgn a * sgn b * (\<bar>a\<bar> div \<bar>b\<bar>)"

definition truth :: "bool \<Rightarrow> int" where
  "truth b = (if b then 1 else 0)"

fun eval :: "(string \<Rightarrow> nat) \<Rightarrow> expr \<Rightarrow> store \<Rightarrow> (int \<times> store) option" where
  "eval sz (Expr_Const c) \<sigma> = Some (c, \<sigma>)"
| "eval sz (Expr_Vacc x) \<sigma> =
    (if is_postinc x
     then Some (\<sigma> (postinc_var x), \<sigma>(postinc_var x := \<sigma> (postinc_var x) + 1))
     else Some (\<sigma> x, \<sigma>))"
| "eval sz (Expr_Plus a b) \<sigma> =
    (case eval sz a \<sigma> of None \<Rightarrow> None | Some (u, \<sigma>1) \<Rightarrow>
      (case eval sz b \<sigma>1 of None \<Rightarrow> None | Some (v, \<sigma>2) \<Rightarrow> Some (u + v, \<sigma>2)))"
| "eval sz (Expr_Minus a b) \<sigma> =
    (case eval sz a \<sigma> of None \<Rightarrow> None | Some (u, \<sigma>1) \<Rightarrow>
      (case eval sz b \<sigma>1 of None \<Rightarrow> None | Some (v, \<sigma>2) \<Rightarrow> Some (u - v, \<sigma>2)))"
| "eval sz (Expr_Times a b) \<sigma> =
    (case eval sz a \<sigma> of None \<Rightarrow> None | Some (u, \<sigma>1) \<Rightarrow>
      (case eval sz b \<sigma>1 of None \<Rightarrow> None | Some (v, \<sigma>2) \<Rightarrow> Some (u * v, \<sigma>2)))"
| "eval sz (Expr_Div a b) \<sigma> =
    (case eval sz a \<sigma> of None \<Rightarrow> None | Some (u, \<sigma>1) \<Rightarrow>
      (case eval sz b \<sigma>1 of None \<Rightarrow> None | Some (v, \<sigma>2) \<Rightarrow>
        if v = 0 then None else Some (c_div u v, \<sigma>2)))"
| "eval sz (Expr_Less a b) \<sigma> =
    (case eval sz a \<sigma> of None \<Rightarrow> None | Some (u, \<sigma>1) \<Rightarrow>
      (case eval sz b \<sigma>1 of None \<Rightarrow> None | Some (v, \<sigma>2) \<Rightarrow> Some (truth (u < v), \<sigma>2)))"
| "eval sz (Expr_Greater a b) \<sigma> =
    (case eval sz a \<sigma> of None \<Rightarrow> None | Some (u, \<sigma>1) \<Rightarrow>
      (case eval sz b \<sigma>1 of None \<Rightarrow> None | Some (v, \<sigma>2) \<Rightarrow> Some (truth (u > v), \<sigma>2)))"
| "eval sz (Expr_Or a b) \<sigma> =
    (case eval sz a \<sigma> of None \<Rightarrow> None | Some (u, \<sigma>1) \<Rightarrow>
      if u \<noteq> 0 then Some (1, \<sigma>1)
      else (case eval sz b \<sigma>1 of None \<Rightarrow> None | Some (v, \<sigma>2) \<Rightarrow> Some (truth (v \<noteq> 0), \<sigma>2)))"
| "eval sz (Expr_Not a) \<sigma> =
    (case eval sz a \<sigma> of None \<Rightarrow> None | Some (u, \<sigma>1) \<Rightarrow> Some (truth (u = 0), \<sigma>1))"
| "eval sz (Expr_Cond c a b) \<sigma> =
    (case eval sz c \<sigma> of None \<Rightarrow> None | Some (u, \<sigma>1) \<Rightarrow>
      if u \<noteq> 0 then eval sz a \<sigma>1 else eval sz b \<sigma>1)"
| "eval sz (Expr_Fn_Call name args is_obj) \<sigma> =
    (case args of
       [obj] \<Rightarrow> if name = ''size'' \<and> is_obj then Some (int (sz obj), \<sigma>) else None
     | _ \<Rightarrow> None)"

fun eval_args :: "(string \<Rightarrow> nat) \<Rightarrow> expr list \<Rightarrow> store \<Rightarrow> (int list \<times> store) option" where
  "eval_args sz [] \<sigma> = Some ([], \<sigma>)"
| "eval_args sz (e # es) \<sigma> =
    (case eval sz e \<sigma> of None \<Rightarrow> None | Some (v, \<sigma>1) \<Rightarrow>
      (case eval_args sz es \<sigma>1 of None \<Rightarrow> None | Some (vs, \<sigma>2) \<Rightarrow> Some (v # vs, \<sigma>2)))"

record run_state =
  vars :: store
  trace :: "(string \<times> int list) list"

definition assign ::
  "(string \<Rightarrow> nat) \<Rightarrow> string \<Rightarrow> assign_op \<Rightarrow> expr \<Rightarrow> run_state \<Rightarrow> run_state option" where
  "assign sz x opr e st =
    (case eval sz e (vars st) of
       None \<Rightarrow> None
     | Some (v, \<sigma>) \<Rightarrow>
         Some (st\<lparr>vars := \<sigma>(x := (case opr of OP_EQ \<Rightarrow> v | OP_PLUS \<Rightarrow> \<sigma> x + v))\<rparr>))"

definition step :: "(string \<Rightarrow> nat) \<Rightarrow> string \<Rightarrow> var_assign option \<Rightarrow> run_state \<Rightarrow> run_state option" where
  "step sz x inc st =
    (case inc of
       None \<Rightarrow> Some (st\<lparr>vars := (vars st)(x := vars st x + 1)\<rparr>)
     | Some va \<Rightarrow> assign sz (va_name va) (va_op va) (va_rhs va) st)"

fun exec_stmt ::
    "(string \<Rightarrow> nat) \<Rightarrow> string set \<Rightarrow> nat \<Rightarrow> stmt \<Rightarrow> run_state \<Rightarrow> run_state option"
  and exec_list ::
    "(string \<Rightarrow> nat) \<Rightarrow> string set \<Rightarrow> nat \<Rightarrow> bool \<Rightarrow> stmt list \<Rightarrow> run_state \<Rightarrow> run_state option"
  and exec_for ::
    "(string \<Rightarrow> nat) \<Rightarrow> string set \<Rightarrow> nat \<Rightarrow> string \<Rightarrow> expr \<Rightarrow> var_assign option \<Rightarrow> stmt list
      \<Rightarrow> run_state \<Rightarrow> run_state option"
where
  "exec_stmt sz defs fuel (Var_Decl vd) st = assign sz (vd_name vd) OP_EQ (vd_rhs vd) st"
| "exec_stmt sz defs fuel (Var_Assign va) st = assign sz (va_name va) (va_op va) (va_rhs va) st"
| "exec_stmt sz defs fuel (For vd c inc body) st =
    (case assign sz (vd_name vd) OP_EQ (vd_rhs vd) st of
       None \<Rightarrow> None
     | Some st1 \<Rightarrow> exec_for sz defs fuel (vd_name vd) c inc body st1)"
| "exec_stmt sz defs fuel (Fn_Call name args is_obj) st =
    (case eval_args sz args (vars st) of
       None \<Rightarrow> None
     | Some (vs, \<sigma>) \<Rightarrow>
         if name = ''assert''
         then (if list_all (\<lambda>v. v \<noteq> 0) vs then Some (st\<lparr>vars := \<sigma>\<rparr>) else None)
         else Some (st\<lparr>vars := \<sigma>, trace := trace st @ [(name, vs)]\<rparr>))"
| "exec_stmt sz defs fuel (CustomCode c) st =
    (if starts_with ''#pragma'' c \<or> starts_with ''//'' c then Some st else None)"
| "exec_stmt sz defs fuel (Block body) st = exec_list sz defs fuel False body st"
| "exec_list sz defs fuel skip [] st = Some st"
| "exec_list sz defs fuel skip (CustomCode c # rest) st =
    (if c = ''#endif'' then exec_list sz defs fuel False rest st
     else if skip then exec_list sz defs fuel skip rest st
     else if starts_with ''#ifdef '' c then exec_list sz defs fuel (drop 7 c \<notin> defs) rest st
     else (case exec_stmt sz defs fuel (CustomCode c) st of
             None \<Rightarrow> None
           | Some st1 \<Rightarrow> exec_list sz defs fuel False rest st1))"
| "exec_list sz defs fuel skip (s # rest) st =
    (if skip then exec_list sz defs fuel skip rest st
     else (case exec_stmt sz defs fuel s st of
             None \<Rightarrow> None
           | Some st1 \<Rightarrow> exec_list sz defs fuel False rest st1))"
| "exec_for sz defs 0 x c inc body st = None"
| "exec_for sz defs (Suc k) x c inc body st =
    (case eval sz c (vars st) of
       None \<Rightarrow> None
     | Some (v, \<sigma>) \<Rightarrow>
         if v = 0 then Some (st\<lparr>vars := \<sigma>\<rparr>)
         else (case exec_list sz defs k False body (st\<lparr>vars := \<sigma>\<rparr>) of
                 None \<Rightarrow> None
               | Some st1 \<Rightarrow>
                   (case step sz x inc st1 of
                      None \<Rightarrow> None
                    | Some st2 \<Rightarrow> exec_for sz defs k x c inc body st2)))"

text \<open>The names of the calls in a tree, and the number of its loops.\<close>

fun calls_in :: "stmt \<Rightarrow> string list" and calls_in_list :: "stmt list \<Rightarrow> string list" where
  "calls_in (Fn_Call name args is_obj) = [name]"
| "calls_in (For vd c inc body) = calls_in_list body"
| "calls_in (Block body) = calls_in_list body"
| "calls_in (Var_Decl vd) = []"
| "calls_in (Var_Assign va) = []"
| "calls_in (CustomCode c) = []"
| "calls_in_list [] = []"
| "calls_in_list (s # rest) = calls_in s @ calls_in_list rest"

fun loops_in :: "stmt \<Rightarrow> nat" and loops_in_list :: "stmt list \<Rightarrow> nat" where
  "loops_in (For vd c inc body) = Suc (loops_in_list body)"
| "loops_in (Block body) = loops_in_list body"
| "loops_in (Fn_Call name args is_obj) = 0"
| "loops_in (Var_Decl vd) = 0"
| "loops_in (Var_Assign va) = 0"
| "loops_in (CustomCode c) = 0"
| "loops_in_list [] = 0"
| "loops_in_list (s # rest) = loops_in s + loops_in_list rest"

section \<open>Auxiliary notions and sample inputs\<close>

text \<open>A tree made of loops and declarations only.\<close>

fun only_loops :: "stmt \<Rightarrow> bool" and only_loops_list :: "stmt list \<Rightarrow> bool" where
  "only_loops (For vd c inc body) = only_loops_list body"
| "only_loops (Var_Decl vd) = True"
| "only_loops (Var_Assign va) = False"
| "only_loops (Fn_Call name args is_obj) = False"
| "only_loops (CustomCode c) = False"
| "only_loops (Block body) = False"
| "only_loops_list [] = True"
| "only_loops_list (s # rest) = (only_loops s \<and> only_loops_list rest)"

text \<open>
  A grammar of one track with one tabulated nonterminal that keeps both indices,
  and a variant of two tracks.
\<close>

definition ex_nt :: NT where
  "ex_nt = \<lparr>nt_tracks = 1, is_tabulated = True,
            tables = [\<lparr>delete_left_index = False, delete_right_index = False\<rparr>],
            left_indices = [''t_0_i''], right_indices = [''t_0_j''],
            code_list = [''nt_tabulate_struct'']\<rparr>"

definition ex_grammar :: Grammar where
  "ex_grammar = \<lparr>grammar_name = ''fold'', location = Loc ''fold.gap'' 1,
                 grammar_axiom = \<lparr>tracks = 1, multi_ys = [\<lparr>low = 0\<rparr>]\<rparr>,
                 left_running_indices = [''t_0_i''], right_running_indices = [''t_0_j''],
                 topological_ord = [ex_nt]\<rparr>"

definition ex_ast :: AST where
  "ex_ast = \<lparr>ast_cyk = True, ast_checkpoint = None, outside_generation = False,
             grammar = ex_grammar,
             seq_decls = [\<lparr>vd_type = Type_External ''sequence'', vd_name = ''t_0_seq'',
                           vd_rhs = Expr_Const 0\<rparr>]\<rparr>"

definition ex_ast2 :: AST where
  "ex_ast2 = ex_ast\<lparr>grammar := ex_grammar\<lparr>
                 grammar_axiom := \<lparr>tracks = 2, multi_ys = [\<lparr>low = 0\<rparr>, \<lparr>low = 1\<rparr>]\<rparr>,
                 left_running_indices := [''t_0_i'', ''t_1_i''],
                 right_running_indices := [''t_0_j'', ''t_1_j'']\<rparr>,
               seq_decls := [\<lparr>vd_type = Type_External ''sequence'', vd_name = ''t_0_seq'',
                               vd_rhs = Expr_Const 0\<rparr>,
                             \<lparr>vd_type = Type_External ''sequence'', vd_name = ''t_1_seq'',
                               vd_rhs = Expr_Const 0\<rparr>]\<rparr>"

text \<open>The two-track grammar asked for its outside version: its second track cannot be empty.\<close>

definition ex_ast_outside :: AST where
  "ex_ast_outside = ex_ast2\<lparr>outside_generation := True\<rparr>"

text \<open>
  The statements of the tile computation in the order \<^verbatim>\<open>print_CYK\<close> emits them:
  under checkpointing the declaration of \<^verbatim>\<open>tile_size\<close> comes from the call with
  \<^verbatim>\<open>just_tilesize\<close> set and the rest from the call without; otherwise one call
  gives all of them.
\<close>

definition tile_computation :: "AST \<Rightarrow> string \<Rightarrow> var_decl \<Rightarrow> stmt list" where
  "tile_computation ast name_maxtilen seq =
    (if checkpoint_cyk ast then fst (get_tile_computation ast name_maxtilen seq True) else [])
    @ fst (get_tile_computation ast name_maxtilen seq False)"

text \<open>A state in which the macro \<^verbatim>\<open>TILE_SIZE\<close> stands for 4.\<close>

definition ex_state :: run_state where
  "ex_state = \<lparr>vars = (\<lambda>x. 0)(''TILE_SIZE'' := 4), trace = []\<rparr>"

text \<open>A loop with an empty body, and the one-track grammar without nonterminals.\<close>

definition ex_dead_loop :: "string \<Rightarrow> stmt" where
  "ex_dead_loop x =
    For \<lparr>vd_type = Type_Size, vd_name = x, vd_rhs = Expr_Const 0\<rparr>
        (Expr_Less (Expr_Vacc x) (Expr_Const 1)) None []"

definition ex_ast_no_nts :: AST where
  "ex_ast_no_nts = ex_ast\<lparr>grammar := ex_grammar\<lparr>topological_ord := []\<rparr>\<rparr>"

text \<open>A tabulated nonterminal whose left index is eliminated: its table is linear.\<close>

definition ex_nt_linear :: NT where
  "ex_nt_linear = \<lparr>nt_tracks = 1, is_tabulated = True,
            tables = [\<lparr>delete_left_index = True, delete_right_index = False\<rparr>],
            left_indices = [''t_0_i''], right_indices = [''t_0_j''],
            code_list = [''nt_tabulate_hairpin'']\<rparr>"

text \<open>
  The placement rule in the words of the specification. The indices of a
  nonterminal that are not eliminated, track by track, the left one (marked
  \<open>True\<close>) before the right one; how many of them the stack of loop variables
  binds; the argument passed for an index; the call; and the condition under
  which the call is placed.
\<close>

definition track_indices :: "NT \<Rightarrow> nat \<Rightarrow> (bool \<times> string) list" where
  "track_indices nt t =
    (if delete_left_index (tables nt ! t) then [] else [(True, left_indices nt ! t)])
    @ (if delete_right_index (tables nt ! t) then [] else [(False, right_indices nt ! t)])"

definition live_indices :: "NT \<Rightarrow> (bool \<times> string) list" where
  "live_indices nt = concat (map (track_indices nt) [0 ..< nt_tracks nt])"

definition bound_indices :: "string list \<Rightarrow> NT \<Rightarrow> nat" where
  "bound_indices loop_vars nt = length (filter (\<lambda>i. snd i \<in> set loop_vars) (live_indices nt))"

definition index_arg :: "bool \<times> string \<Rightarrow> expr" where
  "index_arg i =
    (if fst i then Expr_Minus (Expr_Vacc (snd i)) (Expr_Const 1) else Expr_Vacc (snd i))"

definition call_of :: "NT \<Rightarrow> stmt" where
  "call_of nt = Fn_Call (last (code_list nt)) (map index_arg (live_indices nt)) False"

definition placed :: "string list \<Rightarrow> NT \<Rightarrow> bool" where
  "placed loop_vars nt = (is_tabulated nt \<and> bound_indices loop_vars nt = length loop_vars)"

text \<open>
  The placement in the whole tree, in the words of the specification. The stack
  of loop variables inside a loop (in \<^verbatim>\<open>OPENMP_PARALLEL\<close> mode only the loops over
  table indices, whose names start with \<^verbatim>\<open>t_\<close>, contribute); the statements
  emitted for a level, given the stack bound there; the bodies of all loops of a
  tree, each with its stack; the statements of a level that are no loops; and
  all statements of a tree that are no loops, each with the stack it stands
  under.
\<close>

definition bind_loop_var :: "CYKmode \<Rightarrow> string list \<Rightarrow> string \<Rightarrow> string list" where
  "bind_loop_var mode stack name =
    (if mode = OPENMP_PARALLEL \<and> \<not> starts_with ''t_'' name then stack else stack @ [name])"

definition emitted_at :: "CYKmode \<Rightarrow> bool \<Rightarrow> NT list \<Rightarrow> string list \<Rightarrow> stmt list \<Rightarrow> stmt list" where
  "emitted_at mode with_checkpoint nts stack level =
    (if mode = OPENMP_PARALLEL \<and> list_ex is_FOR level then []
     else (if with_checkpoint \<and> mode = SINGLETHREAD
           then [CustomCode ''std::lock_guard<fair_mutex> lock(mutex);''] else [])
          @ (if with_checkpoint \<and> mode = OPENMP_SERIAL then [mutex_lock] else [])
          @ map call_of (filter (placed stack) nts)
          @ (if with_checkpoint \<and> mode = OPENMP_SERIAL then [mutex_unlock] else []))"

fun loop_bodies :: "CYKmode \<Rightarrow> string list \<Rightarrow> stmt list \<Rightarrow> (string list \<times> stmt list) list" where
  "loop_bodies mode stack [] = []"
| "loop_bodies mode stack (For vd c inc body # rest) =
    (bind_loop_var mode stack (vd_name vd), body)
      # loop_bodies mode (bind_loop_var mode stack (vd_name vd)) body
      @ loop_bodies mode stack rest"
| "loop_bodies mode stack (s # rest) = loop_bodies mode stack rest"

definition plain :: "stmt list \<Rightarrow> stmt list" where
  "plain stmts = filter (\<lambda>s. \<not> is_FOR s) stmts"

fun stmts_at :: "CYKmode \<Rightarrow> string list \<Rightarrow> stmt list \<Rightarrow> (string list \<times> stmt) list" where
  "stmts_at mode stack [] = []"
| "stmts_at mode stack (For vd c inc body # rest) =
    stmts_at mode (bind_loop_var mode stack (vd_name vd)) body @ stmts_at mode stack rest"
| "stmts_at mode stack (s # rest) = (stack, s) # stmts_at mode stack rest"

text \<open>
  The start expression of a loop, and the values of an expression read several
  times in a row.
\<close>

fun loop_start :: "stmt \<Rightarrow> expr option" where
  "loop_start (For vd c inc body) = Some (vd_rhs vd)"
| "loop_start _ = None"

fun eval_times :: "(string \<Rightarrow> nat) \<Rightarrow> expr \<Rightarrow> nat \<Rightarrow> store \<Rightarrow> (int list \<times> store) option" where
  "eval_times sz e 0 \<sigma> = Some ([], \<sigma>)"
| "eval_times sz e (Suc n) \<sigma> =
    (case eval sz e \<sigma> of None \<Rightarrow> None | Some (v, \<sigma>1) \<Rightarrow>
      (case eval_times sz e n \<sigma>1 of None \<Rightarrow> None | Some (vs, \<sigma>2) \<Rightarrow> Some (v # vs, \<sigma>2)))"

text \<open>
  A world in which every sequence has length 9; a store in which \<^verbatim>\<open>t_0_j\<close> was
  restored to 5 and its loaded flag is still zero; the start expression that
  \<^verbatim>\<open>get_for_column\<close> builds for \<^verbatim>\<open>t_0_j\<close> under checkpointing; and the
  like store for \<^verbatim>\<open>t_0_i\<close>.
\<close>

definition ex_sizes :: "string \<Rightarrow> nat" where
  "ex_sizes s = 9"

definition ex_store :: store where
  "ex_store = (\<lambda>x. 0)(''t_0_j'' := 5)"

definition ex_start :: expr where
  "ex_start = Expr_Cond (Expr_Vacc ''t_0_j_loaded++'') (Expr_Const 0) (Expr_Vacc ''t_0_j'')"

definition ex_row_store :: store where
  "ex_row_store = (\<lambda>x. 0)(''t_0_i'' := 4)"

text \<open>
  The single-thread traversal of the one-track grammar, and what
  \<^verbatim>\<open>add_nt_calls\<close> makes of it for the nonterminal with the linear table.
\<close>

definition ex_traversal :: "stmt list" where
  "ex_traversal =
    [For \<lparr>vd_type = Type_Size, vd_name = ''t_0_j'', vd_rhs = Expr_Const 0\<rparr>
       (Expr_Less (Expr_Vacc ''t_0_j'') (Expr_Fn_Call ''size'' [''t_0_seq''] True))
       None
       [For \<lparr>vd_type = Type_Size, vd_name = ''t_0_i'',
              vd_rhs = Expr_Plus (Expr_Vacc ''t_0_j'') (Expr_Const 1)\<rparr>
          (Expr_Greater (Expr_Vacc ''t_0_i'') (Expr_Const 1))
          (Some \<lparr>va_name = ''t_0_i'', va_op = OP_PLUS, va_rhs = Expr_Const (- 1)\<rparr>)
          [],
        Var_Decl \<lparr>vd_type = Type_Size, vd_name = ''t_0_i'', vd_rhs = Expr_Const 1\<rparr>],
     Var_Decl \<lparr>vd_type = Type_Size, vd_name = ''t_0_j'',
               vd_rhs = Expr_Fn_Call ''size'' [''t_0_seq''] True\<rparr>,
     For \<lparr>vd_type = Type_Size, vd_name = ''t_0_i'',
            vd_rhs = Expr_Plus (Expr_Vacc ''t_0_j'') (Expr_Const 1)\<rparr>
       (Expr_Greater (Expr_Vacc ''t_0_i'') (Expr_Const 1))
       (Some \<lparr>va_name = ''t_0_i'', va_op = OP_PLUS, va_rhs = Expr_Const (- 1)\<rparr>)
       [],
     Var_Decl \<lparr>vd_type = Type_Size, vd_name = ''t_0_i'', vd_rhs = Expr_Const 1\<rparr>]"

definition ex_traversal_linear :: "stmt list" where
  "ex_traversal_linear =
    [For \<lparr>vd_type = Type_Size, vd_name = ''t_0_j'', vd_rhs = Expr_Const 0\<rparr>
       (Expr_Less (Expr_Vacc ''t_0_j'') (Expr_Fn_Call ''size'' [''t_0_seq''] True))
       None
       [Var_Decl \<lparr>vd_type = Type_Size, vd_name = ''t_0_i'', vd_rhs = Expr_Const 1\<rparr>,
        Fn_Call ''nt_tabulate_hairpin'' [Expr_Vacc ''t_0_j''] False],
     Var_Decl \<lparr>vd_type = Type_Size, vd_name = ''t_0_j'',
               vd_rhs = Expr_Fn_Call ''size'' [''t_0_seq''] True\<rparr>,
     Var_Decl \<lparr>vd_type = Type_Size, vd_name = ''t_0_i'', vd_rhs = Expr_Const 1\<rparr>]"

text \<open>
  What \<^verbatim>\<open>add_nt_calls\<close> makes of the same traversal for both nonterminals, the
  one with the linear table before the one with the quadratic table.
\<close>

definition ex_traversal_filled :: "stmt list" where
  "ex_traversal_filled =
    [For \<lparr>vd_type = Type_Size, vd_name = ''t_0_j'', vd_rhs = Expr_Const 0\<rparr>
       (Expr_Less (Expr_Vacc ''t_0_j'') (Expr_Fn_Call ''size'' [''t_0_seq''] True))
       None
       [For \<lparr>vd_type = Type_Size, vd_name = ''t_0_i'',
              vd_rhs = Expr_Plus (Expr_Vacc ''t_0_j'') (Expr_Const 1)\<rparr>
          (Expr_Greater (Expr_Vacc ''t_0_i'') (Expr_Const 1))
          (Some \<lparr>va_name = ''t_0_i'', va_op = OP_PLUS, va_rhs = Expr_Const (- 1)\<rparr>)
          [call_of ex_nt],
        Var_Decl \<lparr>vd_type = Type_Size, vd_name = ''t_0_i'', vd_rhs = Expr_Const 1\<rparr>,
        call_of ex_nt_linear,
        call_of ex_nt],
     Var_Decl \<lparr>vd_type = Type_Size, vd_name = ''t_0_j'',
               vd_rhs = Expr_Fn_Call ''size'' [''t_0_seq''] True\<rparr>,
     For \<lparr>vd_type = Type_Size, vd_name = ''t_0_i'',
            vd_rhs = Expr_Plus (Expr_Vacc ''t_0_j'') (Expr_Const 1)\<rparr>
       (Expr_Greater (Expr_Vacc ''t_0_i'') (Expr_Const 1))
       (Some \<lparr>va_name = ''t_0_i'', va_op = OP_PLUS, va_rhs = Expr_Const (- 1)\<rparr>)
       [call_of ex_nt],
     Var_Decl \<lparr>vd_type = Type_Size, vd_name = ''t_0_i'', vd_rhs = Expr_Const 1\<rparr>]"

text \<open>
  A body for the traversal that records the cell it stands on: the row is the
  left index less one, as in the calls that \<^verbatim>\<open>add_nt_calls\<close> builds, the
  column is the right index. The cells of column \<open>j\<close> from the diagonal up to row
  0, and the cells of all columns up to \<open>n\<close> in that order.
\<close>

definition cell_call :: "string \<Rightarrow> string \<Rightarrow> stmt" where
  "cell_call li rj =
    Fn_Call ''nt_tabulate_cell'' [expr_minus (Expr_Vacc li) (Expr_Const 1), Expr_Vacc rj] False"

definition column_cells :: "nat \<Rightarrow> (nat \<times> nat) list" where
  "column_cells j = map (\<lambda>i. (i, j)) (rev [0 ..< Suc j])"

definition cell_order :: "nat \<Rightarrow> (nat \<times> nat) list" where
  "cell_order n = concat (map column_cells [0 ..< Suc n])"

definition visit :: "nat \<times> nat \<Rightarrow> string \<times> int list" where
  "visit c = (''nt_tabulate_cell'', [int (fst c), int (snd c)])"

text \<open>The body of the column loop when the nested statement is the cell record.\<close>

definition column_body :: "string \<Rightarrow> string \<Rightarrow> stmt list" where
  "column_body li rj =
    [For \<lparr>vd_type = Type_Size, vd_name = li, vd_rhs = Expr_Plus (Expr_Vacc rj) (Expr_Const 1)\<rparr>
       (Expr_Greater (Expr_Vacc li) (Expr_Const 1))
       (Some \<lparr>va_name = li, va_op = OP_PLUS, va_rhs = Expr_Const (- 1)\<rparr>)
       [cell_call li rj],
     Var_Decl \<lparr>vd_type = Type_Size, vd_name = li, vd_rhs = Expr_Const 1\<rparr>,
     cell_call li rj]"

text \<open>
  A tabulated nonterminal of one track that keeps both indices; its code is the
  function the cell record calls.
\<close>

definition cell_nt :: "string \<Rightarrow> string \<Rightarrow> NT" where
  "cell_nt li rj = \<lparr>nt_tracks = 1, is_tabulated = True,
      tables = [\<lparr>delete_left_index = False, delete_right_index = False\<rparr>],
      left_indices = [li], right_indices = [rj], code_list = [''nt_tabulate_cell'']\<rparr>"

text \<open>
  Further samples: a world in which every sequence has length 2; the value of a
  variable after a run; a store of the tile phase with \<^verbatim>\<open>x = 8\<close> and
  \<^verbatim>\<open>tile_size = 4\<close>; a store in column 3; the row loop of the single-thread
  traversal and the row loop of the tile interior.
\<close>

definition ex_short :: "string \<Rightarrow> nat" where
  "ex_short s = 2"

definition final_value :: "string \<Rightarrow> run_state option \<Rightarrow> int option" where
  "final_value x r = (case r of None \<Rightarrow> None | Some st \<Rightarrow> Some (vars st x))"

definition ex_tile_state :: run_state where
  "ex_tile_state = \<lparr>vars = (\<lambda>x. 0)(''x'' := 8, ''tile_size'' := 4), trace = []\<rparr>"

definition ex_column_state :: run_state where
  "ex_column_state = \<lparr>vars = (\<lambda>x. 0)(''t_0_j'' := 3), trace = []\<rparr>"

definition ex_row :: stmt where
  "ex_row =
    For \<lparr>vd_type = Type_Size, vd_name = ''t_0_i'',
           vd_rhs = Expr_Plus (Expr_Vacc ''t_0_j'') (Expr_Const 1)\<rparr>
      (Expr_Greater (Expr_Vacc ''t_0_i'') (Expr_Const 1))
      (Some \<lparr>va_name = ''t_0_i'', va_op = OP_PLUS, va_rhs = Expr_Const (- 1)\<rparr>)
      []"

definition ex_tile_row :: stmt where
  "ex_tile_row =
    For \<lparr>vd_type = Type_Int, vd_name = ''t_0_i'', vd_rhs = Expr_Vacc ''x''\<rparr>
      (Expr_Greater (Expr_Vacc ''t_0_i'') (Expr_Minus (Expr_Vacc ''x'') (Expr_Vacc ''tile_size'')))
      (Some \<lparr>va_name = ''t_0_i'', va_op = OP_PLUS, va_rhs = Expr_Const (- 1)\<rparr>)
      []"

section \<open>Properties\<close>

lemma and_then_Inr [simp]: "and_then (Inr x) f = f x"
  by (simp add: and_then_def)

lemma and_then_Inl [simp]: "and_then (Inl e) f = Inl e"
  by (simp add: and_then_def)

lemma and_then_eq_Inr: "and_then m f = Inr y \<longleftrightarrow> (\<exists>x. m = Inr x \<and> f x = Inr y)"
  by (cases m) simp_all

subsection \<open>The single-thread traversal holds loops and declarations only\<close>

lemma only_loops_list_append [simp]:
  "only_loops_list (xs @ ys) = (only_loops_list xs \<and> only_loops_list ys)"
  by (induction xs) simp_all

lemma only_loops_no_calls:
  "only_loops s \<Longrightarrow> calls_in s = []"
  "only_loops_list ss \<Longrightarrow> calls_in_list ss = []"
  by (induction s and ss rule: only_loops_only_loops_list.induct) simp_all

lemma get_for_row_shape:
  "get_for_row rb start e cp mode = Inr r \<Longrightarrow> \<exists>vd c inc. loop r = For vd c inc []"
  by (auto simp: get_for_row_def CYKloop_ctor_def Let_def split: if_splits)

lemma get_for_column_shape:
  "get_for_column rb start e cp mode = Inr r \<Longrightarrow> \<exists>vd c inc. loop r = For vd c inc []"
  by (auto simp: get_for_column_def CYKloop_ctor_def Let_def split: if_splits)

lemma singletrack_only_loops:
  assumes "cyk_traversal_singlethread_singletrack track ast seq nested cp mode = Inr res"
    and "only_loops_list nested"
  shows "only_loops_list res"
  using assms
  unfolding cyk_traversal_singlethread_singletrack_def Let_def and_then_eq_Inr
    copy_statements_def
  by (auto dest!: get_for_row_shape get_for_column_shape)

lemma singletrack_outside_only_loops:
  assumes "cyk_traversal_singlethread_singletrack_outside track ast seq nested cp mode = Inr res"
    and "only_loops_list nested"
  shows "only_loops_list res"
  using assms
  unfolding cyk_traversal_singlethread_singletrack_outside_def Let_def and_then_eq_Inr
    copy_statements_def
  by (auto dest!: get_for_row_shape get_for_column_shape)

lemma tracks_only_loops:
  "cyk_traversal_tracks ast mode k stmts = Inr res \<Longrightarrow> only_loops_list stmts
    \<Longrightarrow> only_loops_list res"
proof (induction k arbitrary: stmts)
  case 0
  then show ?case by simp
next
  case (Suc k)
  from Suc.prems(1) obtain mid where
    mid: "(if mode = SINGLETHREAD_OUTSIDE
       then cyk_traversal_singlethread_singletrack_outside k ast (seq_decls ast ! k)
              stmts (checkpoint_cyk ast) mode
       else cyk_traversal_singlethread_singletrack k ast (seq_decls ast ! k)
              stmts (checkpoint_cyk ast) mode) = Inr mid"
    and rest: "cyk_traversal_tracks ast mode k mid = Inr res"
    by (auto simp: and_then_eq_Inr)
  from mid Suc.prems(2) have "only_loops_list mid"
    by (auto split: if_splits dest: singletrack_only_loops singletrack_outside_only_loops)
  with rest show ?case by (rule Suc.IH)
qed

lemma singlethread_only_loops:
  "cyk_traversal_singlethread ast mode = Inr res \<Longrightarrow> only_loops_list res"
  by (auto simp: cyk_traversal_singlethread_def split: if_splits dest: tracks_only_loops)

subsection \<open>The function when no evaluation is requested\<close>

text \<open>
  C9. When CYK evaluation is not requested, \<^verbatim>\<open>print_CYK\<close> still returns a
  function definition: it is named \<^verbatim>\<open>cyk\<close>, returns nothing, and its body holds
  no statement.
\<close>

theorem print_CYK_not_requested:
  "\<not> ast_cyk ast \<Longrightarrow>
   print_CYK ast = Inr \<lparr>fn_return_type = Type_RealVoid, fn_name = ''cyk'', fn_stmts = []\<rparr>"
  by (simp add: print_CYK_def)

theorem print_CYK_not_requested_witness:
  "\<not> ast_cyk (ex_ast\<lparr>ast_cyk := False\<rparr>) \<and>
   print_CYK (ex_ast\<lparr>ast_cyk := False\<rparr>)
     = Inr \<lparr>fn_return_type = Type_RealVoid, fn_name = ''cyk'', fn_stmts = []\<rparr>"
  using print_CYK_not_requested [of "ex_ast\<lparr>ast_cyk := False\<rparr>"] by simp

subsection \<open>The shape of the function body\<close>

lemma print_CYK_shape:
  assumes "ast_cyk ast" and "print_CYK ast = Inr f"
  shows "\<exists>flags stmts multi.
           (if checkpoint_cyk ast
            then loaded_flags ast [0 ..< tracks (grammar_axiom (grammar ast))]
            else Inr []) = Inr flags
         \<and> cyk_traversal_singlethread ast
             (if outside_generation ast then SINGLETHREAD_OUTSIDE else SINGLETHREAD) = Inr stmts
         \<and> (if tracks (grammar_axiom (grammar ast)) = 1 then multi_thread_version ast
             else Inr []) = Inr multi
         \<and> fn_name f = ''cyk''
         \<and> fn_stmts f = flags @ [CustomCode ''#ifndef _OPENMP''] @ stmts
                         @ [CustomCode ''#else''] @ multi @ [CustomCode ''#endif'']"
  using assms
  by (auto simp: print_CYK_def Let_def and_then_eq_Inr)

text \<open>
  C6. For a grammar whose axiom has more than one track, the function that
  \<^verbatim>\<open>print_CYK\<close> returns holds no tiled or parallel structure: after the
  declarations of the loaded flags (present under checkpointing only) comes
  \<^verbatim>\<open>#ifndef _OPENMP\<close>, the single-thread traversal, which is made of loops and
  index declarations only, and then \<^verbatim>\<open>#else\<close> directly followed by
  \<^verbatim>\<open>#endif\<close>: the multi-thread branch is empty.
\<close>

theorem print_CYK_multi_track:
  assumes "ast_cyk ast" and "1 < tracks (grammar_axiom (grammar ast))"
    and "print_CYK ast = Inr f"
  shows "\<exists>flags stmts.
           (if checkpoint_cyk ast
            then loaded_flags ast [0 ..< tracks (grammar_axiom (grammar ast))]
            else Inr []) = Inr flags
         \<and> cyk_traversal_singlethread ast
             (if outside_generation ast then SINGLETHREAD_OUTSIDE else SINGLETHREAD) = Inr stmts
         \<and> only_loops_list stmts
         \<and> fn_stmts f = flags @ [CustomCode ''#ifndef _OPENMP''] @ stmts
                         @ [CustomCode ''#else'', CustomCode ''#endif'']"
  using print_CYK_shape [OF assms(1) assms(3)] assms(2)
  by (auto dest: singlethread_only_loops)

lemma ex_ast2_returns: "\<not> isl (print_CYK ex_ast2)"
  by code_simp

theorem print_CYK_multi_track_witness:
  "ast_cyk ex_ast2 \<and> 1 < tracks (grammar_axiom (grammar ex_ast2)) \<and>
   (\<exists>f flags stmts. print_CYK ex_ast2 = Inr f
      \<and> flags = []
      \<and> cyk_traversal_singlethread ex_ast2 SINGLETHREAD = Inr stmts
      \<and> only_loops_list stmts
      \<and> fn_stmts f = flags @ [CustomCode ''#ifndef _OPENMP''] @ stmts
                      @ [CustomCode ''#else'', CustomCode ''#endif''])"
proof -
  have a: "ast_cyk ex_ast2" and t: "1 < tracks (grammar_axiom (grammar ex_ast2))"
    and c: "\<not> checkpoint_cyk ex_ast2" and o: "\<not> outside_generation ex_ast2"
    by (simp_all add: ex_ast2_def ex_ast_def ex_grammar_def checkpoint_cyk_def)
  obtain f where f: "print_CYK ex_ast2 = Inr f"
    using ex_ast2_returns by (cases "print_CYK ex_ast2") simp_all
  from print_CYK_multi_track [OF a t f] c o a t f show ?thesis
    by auto
qed

text \<open>
  C1. The claim wants the nonterminal calls placed in the traversal of every
  mode. In the function returned for the one-track sample grammar, whose
  nonterminal is tabulated, the single-thread variant (between
  \<^verbatim>\<open>#ifndef _OPENMP\<close> and \<^verbatim>\<open>#else\<close>) is the bare traversal: three loops and
  not one call. The multi-thread variant (between \<^verbatim>\<open>#else\<close> and
  \<^verbatim>\<open>#endif\<close>), where \<^verbatim>\<open>add_nt_calls\<close> is applied to the tiled and to the
  serial traversal, holds the calls of the nonterminal.
\<close>

theorem print_CYK_single_thread_without_calls:
  "\<exists>f single multi.
      print_CYK ex_ast = Inr f
    \<and> fn_stmts f = [CustomCode ''#ifndef _OPENMP''] @ single @ [CustomCode ''#else'']
                     @ multi @ [CustomCode ''#endif'']
    \<and> cyk_traversal_singlethread ex_ast SINGLETHREAD = Inr single
    \<and> multi_thread_version ex_ast = Inr multi
    \<and> calls_in_list single = []
    \<and> loops_in_list single = 3
    \<and> calls_in_list multi
        = [''assert'', ''nt_tabulate_struct'', ''nt_tabulate_struct'', ''assert'',
           ''nt_tabulate_struct'', ''nt_tabulate_struct'', ''nt_tabulate_struct'',
           ''nt_tabulate_struct'']"
proof -
  have a: "ast_cyk ex_ast" and t: "tracks (grammar_axiom (grammar ex_ast)) = 1"
    and c: "\<not> checkpoint_cyk ex_ast" and o: "\<not> outside_generation ex_ast"
    by (simp_all add: ex_ast_def ex_grammar_def checkpoint_cyk_def)
  have "\<not> isl (print_CYK ex_ast)" by code_simp
  then obtain f where f: "print_CYK ex_ast = Inr f"
    by (cases "print_CYK ex_ast") simp_all
  from print_CYK_shape [OF a f] c o t obtain single multi where
    s: "cyk_traversal_singlethread ex_ast SINGLETHREAD = Inr single"
    and m: "multi_thread_version ex_ast = Inr multi"
    and b: "fn_stmts f = [CustomCode ''#ifndef _OPENMP''] @ single @ [CustomCode ''#else'']
                     @ multi @ [CustomCode ''#endif'']"
    by auto
  have "calls_in_list single = []"
    using s by (auto dest: singlethread_only_loops only_loops_no_calls)
  moreover have "(case cyk_traversal_singlethread ex_ast SINGLETHREAD of
                    Inl e \<Rightarrow> 0 | Inr x \<Rightarrow> loops_in_list x) = 3"
    by code_simp
  then have "loops_in_list single = 3" using s by simp
  moreover have "(case multi_thread_version ex_ast of Inl e \<Rightarrow> [] | Inr x \<Rightarrow> calls_in_list x)
     = [''assert'', ''nt_tabulate_struct'', ''nt_tabulate_struct'', ''assert'',
        ''nt_tabulate_struct'', ''nt_tabulate_struct'', ''nt_tabulate_struct'',
        ''nt_tabulate_struct'']"
    by code_simp
  then have "calls_in_list multi
     = [''assert'', ''nt_tabulate_struct'', ''nt_tabulate_struct'', ''assert'',
        ''nt_tabulate_struct'', ''nt_tabulate_struct'', ''nt_tabulate_struct'',
        ''nt_tabulate_struct'']"
    using m by simp
  ultimately show ?thesis using f s m b by blast
qed

subsection \<open>The check for the empty word\<close>

lemma check_multi_ys_result:
  "check_multi_ys g ys lg =
    (if \<forall>y \<in> set ys. low y = 0 then (True, lg)
     else (False, lg @ [Log_warning (location g)
             (empty_word_msg (grammar_name g) (low (hd (filter (\<lambda>y. low y > 0) ys))))]))"
  by (induction ys) auto

lemma empty_word_msg_phrase:
  "\<exists>pre post. empty_word_msg name l = pre @ ''it cannot parse the empty input string'' @ post"
proof -
  have "empty_word_msg name l =
      (''The minimal yield size of your grammar '' @ [CHR 0x27] @ name @ [CHR 0x27] @ '' is ''
        @ decimal l @ '', i.e. '')
      @ ''it cannot parse the empty input string''
      @ ('' '' @ [CHR 0x27, CHR 0x27] @ ''.''
         @ '' For outside grammar generation, this means you are lacking a''
         @ '' recursion basis which will result in empty results for ''
         @ ''ALL outside candidates! Try adding an alternative like ''
         @ ''nil(EMPTY) to your axiom.'')"
    by (simp add: empty_word_msg_def)
  then show ?thesis by blast
qed

text \<open>
  C10. \<^verbatim>\<open>Grammar::check_outside_parse_empty_word\<close> returns true exactly when
  outside generation is not requested or the minimal yield size of the axiom is
  zero on every track. When it returns true the log is unchanged. When it
  returns false it has appended one entry to the log, a warning and not an error,
  at the grammar's location, whose text names a positive minimal yield size and
  says that the grammar cannot parse the empty input string.
\<close>

theorem check_outside_parse_empty_word_result:
  "(fst (check_outside_parse_empty_word ast lg) \<longleftrightarrow>
      \<not> outside_generation ast
      \<or> (\<forall>y \<in> set (multi_ys (grammar_axiom (grammar ast))). low y = 0))
   \<and> (fst (check_outside_parse_empty_word ast lg) \<longrightarrow>
        snd (check_outside_parse_empty_word ast lg) = lg)
   \<and> (\<not> fst (check_outside_parse_empty_word ast lg) \<longrightarrow>
        (\<exists>l pre post. 0 < l
          \<and> snd (check_outside_parse_empty_word ast lg)
              = lg @ [Log_warning (location (grammar ast))
                        (empty_word_msg (grammar_name (grammar ast)) l)]
          \<and> empty_word_msg (grammar_name (grammar ast)) l
              = pre @ ''it cannot parse the empty input string'' @ post))"
proof (cases "\<not> outside_generation ast
      \<or> (\<forall>y \<in> set (multi_ys (grammar_axiom (grammar ast))). low y = 0)")
  case True
  then show ?thesis
    by (auto simp: check_outside_parse_empty_word_def check_multi_ys_result)
next
  case False
  define ys where "ys = multi_ys (grammar_axiom (grammar ast))"
  define l where "l = low (hd (filter (\<lambda>y. low y > 0) ys))"
  from False have out: "outside_generation ast" and ex: "\<not> (\<forall>y \<in> set ys. low y = 0)"
    by (simp_all add: ys_def)
  from ex have "filter (\<lambda>y. low y > 0) ys \<noteq> []"
    by (auto simp: filter_empty_conv)
  then have "hd (filter (\<lambda>y. low y > 0) ys) \<in> set (filter (\<lambda>y. low y > 0) ys)"
    by (rule hd_in_set)
  then have pos: "0 < l" by (simp add: l_def)
  have res: "check_outside_parse_empty_word ast lg
      = (False, lg @ [Log_warning (location (grammar ast))
                        (empty_word_msg (grammar_name (grammar ast)) l)])"
    using out ex
    by (simp add: check_outside_parse_empty_word_def check_multi_ys_result ys_def l_def)
  obtain pre post where
    msg: "empty_word_msg (grammar_name (grammar ast)) l
       = pre @ ''it cannot parse the empty input string'' @ post"
    using empty_word_msg_phrase by blast
  have 1: "fst (check_outside_parse_empty_word ast lg) \<longleftrightarrow>
      \<not> outside_generation ast
      \<or> (\<forall>y \<in> set (multi_ys (grammar_axiom (grammar ast))). low y = 0)"
    using res False by simp
  have 2: "fst (check_outside_parse_empty_word ast lg) \<longrightarrow>
        snd (check_outside_parse_empty_word ast lg) = lg"
    using res by simp
  have 3: "\<not> fst (check_outside_parse_empty_word ast lg) \<longrightarrow>
        (\<exists>l pre post. 0 < l
          \<and> snd (check_outside_parse_empty_word ast lg)
              = lg @ [Log_warning (location (grammar ast))
                        (empty_word_msg (grammar_name (grammar ast)) l)]
          \<and> empty_word_msg (grammar_name (grammar ast)) l
              = pre @ ''it cannot parse the empty input string'' @ post)"
  proof (intro impI exI conjI)
    show "0 < l" by (rule pos)
    show "snd (check_outside_parse_empty_word ast lg)
              = lg @ [Log_warning (location (grammar ast))
                        (empty_word_msg (grammar_name (grammar ast)) l)]"
      by (simp only: res snd_conv)
    show "empty_word_msg (grammar_name (grammar ast)) l
              = pre @ ''it cannot parse the empty input string'' @ post"
      by (rule msg)
  qed
  from 1 2 3 show ?thesis by (intro conjI)
qed

theorem check_outside_parse_empty_word_result_witness:
  "\<not> fst (check_outside_parse_empty_word ex_ast_outside [])
   \<and> (\<exists>l. 0 < l \<and> snd (check_outside_parse_empty_word ex_ast_outside [])
              = [Log_warning (Loc ''fold.gap'' 1) (empty_word_msg ''fold'' l)])
   \<and> fst (check_outside_parse_empty_word ex_ast2 [])
   \<and> snd (check_outside_parse_empty_word ex_ast2 []) = []"
proof -
  have o: "outside_generation ex_ast_outside" "\<not> outside_generation ex_ast2"
    and y: "\<not> (\<forall>y \<in> set (multi_ys (grammar_axiom (grammar ex_ast_outside))). low y = 0)"
    and g: "location (grammar ex_ast_outside) = Loc ''fold.gap'' 1"
      "grammar_name (grammar ex_ast_outside) = ''fold''"
    by (simp_all add: ex_ast_outside_def ex_ast2_def ex_ast_def ex_grammar_def)
  from check_outside_parse_empty_word_result [of ex_ast_outside "[]"] o y
  have "\<not> fst (check_outside_parse_empty_word ex_ast_outside [])" by blast
  moreover from this check_outside_parse_empty_word_result [of ex_ast_outside "[]"] g
  have "\<exists>l. 0 < l \<and> snd (check_outside_parse_empty_word ex_ast_outside [])
              = [Log_warning (Loc ''fold.gap'' 1) (empty_word_msg ''fold'' l)]"
    by auto
  moreover from check_outside_parse_empty_word_result [of ex_ast2 "[]"] o
  have "fst (check_outside_parse_empty_word ex_ast2 [])"
    "snd (check_outside_parse_empty_word ex_ast2 []) = []"
    by blast+
  ultimately show ?thesis by blast
qed

subsection \<open>The tile computation\<close>

lemma c_div_nonneg: "0 \<le> a \<Longrightarrow> 0 < b \<Longrightarrow> c_div a b = a div b"
  by (cases "a = 0") (simp_all add: c_div_def)

lemma tile_computation_list:
  "tile_computation ast name_maxtilen seq =
     [Var_Decl \<lparr>vd_type = Type_Size, vd_name = ''tile_size'', vd_rhs = Expr_Const 32\<rparr>,
      CustomCode ''#ifdef TILE_SIZE'',
      Var_Assign \<lparr>va_name = ''tile_size'', va_op = OP_EQ, va_rhs = Expr_Vacc ''TILE_SIZE''\<rparr>,
      CustomCode ''#endif'',
      Fn_Call ''assert'' [Expr_Vacc ''tile_size''] False,
      Var_Decl \<lparr>vd_type = Type_Size, vd_name = ''max_tiles'',
                vd_rhs = Expr_Div (Expr_Fn_Call ''size'' [vd_name seq] True)
                                  (Expr_Vacc ''tile_size'')\<rparr>,
      Var_Decl \<lparr>vd_type = Type_Int, vd_name = name_maxtilen,
                vd_rhs = Expr_Times (Expr_Vacc ''max_tiles'') (Expr_Vacc ''tile_size'')\<rparr>]"
  by (simp add: tile_computation_def get_tile_computation_def seq_size_def Let_def)

lemma plain_names [simp]:
  "\<not> is_postinc ''tile_size''" "\<not> is_postinc ''TILE_SIZE''" "\<not> is_postinc ''max_tiles''"
  by (simp_all add: is_postinc_def)

text \<open>
  C7. The tile computation declares \<^verbatim>\<open>tile_size\<close> with the value 32 and
  overrides it by the macro \<^verbatim>\<open>TILE_SIZE\<close> when that is defined; it declares
  \<^verbatim>\<open>max_tiles\<close> as the floor of the sequence length divided by the tile size,
  and \<^verbatim>\<open>max_tiles_n\<close> as \<^verbatim>\<open>max_tiles\<close> times the tile size. For a positive
  tile size the statements run to their end with exactly these values. (For
  length 12 and tile size 4 they are 3 and 12: the instance proved next.)
\<close>

theorem get_tile_computation_values:
  assumes "ts = (if ''TILE_SIZE'' \<in> defs then vars st ''TILE_SIZE'' else 32)" and "0 < ts"
  shows "snd (get_tile_computation ast ''max_tiles_n'' seq just_tilesize)
           = \<lparr>vd_type = Type_Size, vd_name = ''tile_size'', vd_rhs = Expr_Const 32\<rparr>
       \<and> (\<exists>st'. exec_list sz defs fuel False (tile_computation ast ''max_tiles_n'' seq) st = Some st'
            \<and> vars st' ''tile_size'' = ts
            \<and> vars st' ''max_tiles'' = int (sz (vd_name seq)) div ts
            \<and> vars st' ''max_tiles_n'' = (int (sz (vd_name seq)) div ts) * ts
            \<and> trace st' = trace st)"
proof (cases "''TILE_SIZE'' \<in> defs")
  case True
  with assms show ?thesis
    by (simp add: tile_computation_list get_tile_computation_def Let_def starts_with_def
        assign_def c_div_nonneg)
next
  case False
  with assms show ?thesis
    by (simp add: tile_computation_list get_tile_computation_def Let_def starts_with_def
        assign_def c_div_nonneg)
qed

theorem get_tile_computation_values_witness:
  "(4::int) = (if ''TILE_SIZE'' \<in> {''TILE_SIZE''} then vars ex_state ''TILE_SIZE'' else 32)
   \<and> (0::int) < 4
   \<and> (\<exists>st'. exec_list (\<lambda>s. 12) {''TILE_SIZE''} 0 False
               (tile_computation ex_ast ''max_tiles_n'' (hd (seq_decls ex_ast))) ex_state = Some st'
            \<and> vars st' ''tile_size'' = 4
            \<and> vars st' ''max_tiles'' = 3
            \<and> vars st' ''max_tiles_n'' = 12)"
proof -
  have h: "(4::int) = (if ''TILE_SIZE'' \<in> {''TILE_SIZE''} then vars ex_state ''TILE_SIZE'' else 32)"
    by (simp add: ex_state_def)
  from get_tile_computation_values [OF h, of ex_ast "hd (seq_decls ex_ast)" False "\<lambda>s. 12" 0] h
  show ?thesis by auto
qed

subsection \<open>Pruning of empty loops\<close>

text \<open>
  C5. The claim wants every loop without a nonterminal call and without a nested
  loop removed, the sibling after a removed loop included. In the code the pass
  steps over that sibling: of two empty loops in a row the second one stays;
  and when the removed loop is the last statement of its list, the iterator
  is incremented past the end. The latter is what happens to the tiled
  traversal of the one-track grammar without nonterminals (the row loop is
  the only statement of the column loop), so \<^verbatim>\<open>print_CYK\<close> does not deliver a
  tree without loops there.
\<close>

theorem add_nt_calls_pruning_skips_sibling:
  "add_nt_calls [ex_dead_loop ''a'', ex_dead_loop ''b''] [] [] False SINGLETHREAD
     = Inr ([ex_dead_loop ''b''], [])
   \<and> is_FOR (ex_dead_loop ''b'') \<and> count_nt_calls_and_loops (ex_dead_loop ''b'') = 0
   \<and> add_nt_calls [ex_dead_loop ''a''] [] [] False SINGLETHREAD = Inl UndefinedBehaviour
   \<and> and_then (cyk_traversal_multithread_parallel ex_ast_no_nts (hd (seq_decls ex_ast_no_nts))
                  \<lparr>vd_type = Type_Size, vd_name = ''tile_size'', vd_rhs = Expr_Const 32\<rparr>
                  ''max_tiles_n'' False)
        (\<lambda>stmts. add_nt_calls stmts [] [] False OPENMP_PARALLEL)
       = Inl UndefinedBehaviour
   \<and> print_CYK ex_ast_no_nts = Inl UndefinedBehaviour"
proof (intro conjI)
  show "add_nt_calls [ex_dead_loop ''a'', ex_dead_loop ''b''] [] [] False SINGLETHREAD
     = Inr ([ex_dead_loop ''b''], [])"
    by code_simp
  show "is_FOR (ex_dead_loop ''b'')" by code_simp
  show "count_nt_calls_and_loops (ex_dead_loop ''b'') = 0" by code_simp
  show "add_nt_calls [ex_dead_loop ''a''] [] [] False SINGLETHREAD = Inl UndefinedBehaviour"
    by code_simp
  show "and_then (cyk_traversal_multithread_parallel ex_ast_no_nts (hd (seq_decls ex_ast_no_nts))
                  \<lparr>vd_type = Type_Size, vd_name = ''tile_size'', vd_rhs = Expr_Const 32\<rparr>
                  ''max_tiles_n'' False)
        (\<lambda>stmts. add_nt_calls stmts [] [] False OPENMP_PARALLEL)
       = Inl UndefinedBehaviour"
    by code_simp
  show "print_CYK ex_ast_no_nts = Inl UndefinedBehaviour" by code_simp
qed

subsection \<open>Placement of the nonterminal calls\<close>

lemma nt_track_spec:
  "nt_track nt lv t (args, used, has) = Inr acc \<Longrightarrow>
   acc = (args @ map index_arg (track_indices nt t),
          used + length (filter (\<lambda>i. snd i \<in> set lv) (track_indices nt t)),
          has + length (track_indices nt t))"
  by (auto simp: nt_track_def track_indices_def index_arg_def at_def subscript_def
      expr_minus_def split: if_splits)

lemma nt_tracks_loop_spec:
  "nt_tracks_loop nt lv ts (args, used, has) = Inr acc \<Longrightarrow>
   acc = (args @ map index_arg (concat (map (track_indices nt) ts)),
          used + length (filter (\<lambda>i. snd i \<in> set lv) (concat (map (track_indices nt) ts))),
          has + length (concat (map (track_indices nt) ts)))"
proof (induction ts arbitrary: args used has)
  case Nil
  then show ?case by simp
next
  case (Cons t ts)
  from Cons.prems obtain mid where
    m: "nt_track nt lv t (args, used, has) = Inr mid" and r: "nt_tracks_loop nt lv ts mid = Inr acc"
    by (auto simp: and_then_eq_Inr)
  from nt_track_spec [OF m] have mid: "mid = (args @ map index_arg (track_indices nt t),
          used + length (filter (\<lambda>i. snd i \<in> set lv) (track_indices nt t)),
          has + length (track_indices nt t))" .
  from Cons.IH [OF r [unfolded mid]] show ?case by simp
qed

lemma nt_calls_spec:
  "nt_calls nts lv = Inr calls \<Longrightarrow> calls = map call_of (filter (placed lv) nts)"
proof (induction nts arbitrary: calls)
  case Nil
  then show ?case by simp
next
  case (Cons nt nts)
  show ?case
  proof (cases "is_tabulated nt")
    case False
    with Cons show ?thesis by (simp add: placed_def)
  next
    case True
    with Cons.prems obtain acc where
      a: "nt_tracks_loop nt lv [0 ..< nt_tracks nt] ([], 0, 0) = Inr acc"
      by (auto simp: and_then_eq_Inr)
    from nt_tracks_loop_spec [OF a]
    have acc: "acc = (map index_arg (live_indices nt), bound_indices lv nt,
                      length (live_indices nt))"
      by (simp add: live_indices_def bound_indices_def)
    show ?thesis
    proof (cases "bound_indices lv nt = length lv")
      case False
      with True Cons a acc show ?thesis by (simp add: placed_def)
    next
      case b: True
      with True Cons.prems a acc obtain rest where
        "nt_calls nts lv = Inr rest" and "calls = call_of nt # rest"
        by (auto simp: and_then_eq_Inr call_of_def split: if_splits)
      with Cons.IH True b show ?thesis by (simp add: placed_def)
    qed
  qed
qed

lemma placed_one_live:
  assumes "live_indices nt = [i]"
  shows "placed lv nt \<longleftrightarrow> is_tabulated nt \<and> (lv = [] \<or> lv = [snd i])"
  using assms by (cases lv; cases "tl lv") (auto simp: placed_def bound_indices_def)

lemma loop_bodies_append:
  "loop_bodies mode st (xs @ ys) = loop_bodies mode st xs @ loop_bodies mode st ys"
  by (induction mode st xs rule: loop_bodies.induct) simp_all

lemma loop_bodies_no_loops:
  "\<not> list_ex is_FOR xs \<Longrightarrow> loop_bodies mode st xs = []"
  by (induction mode st xs rule: loop_bodies.induct) simp_all

lemma emitted_at_no_loops: "\<not> list_ex is_FOR (emitted_at mode cp nts st level)"
  by (auto simp: emitted_at_def list_ex_iff call_of_def mutex_lock_def mutex_unlock_def)

lemma count_statements_0:
  "count_statements body = 0 \<Longrightarrow> \<not> list_ex is_FOR body \<and> \<not> list_ex is_nt_tabulate_call body"
  by (induction body) (auto split: if_splits)

lemma erase_loops_plain:
  "erase_loops xs = Inr ys \<Longrightarrow> plain ys = plain xs"
proof (induction xs arbitrary: ys rule: erase_loops.induct)
  case 1
  then show ?case by simp
next
  case (2 s rest)
  show ?case
  proof (cases "is_FOR s \<and> count_nt_calls_and_loops s = 0")
    case True
    with "2.prems" obtain r rest' xs where
      rest: "rest = r # rest'" and e: "erase_loops rest' = Inr xs" and ys: "ys = r # xs"
      by (auto simp: and_then_eq_Inr split: list.splits)
    from "2.IH"(1) [OF True rest e] True rest ys show ?thesis by (simp add: plain_def)
  next
    case False
    with "2.prems" obtain xs where e: "erase_loops rest = Inr xs" and ys: "ys = s # xs"
      by (auto simp: and_then_eq_Inr)
    from "2.IH"(2) [OF False e] ys show ?thesis by (simp add: plain_def)
  qed
qed

lemma loop_bodies_Cons:
  "loop_bodies mode st (s # rest) = loop_bodies mode st [s] @ loop_bodies mode st rest"
  using loop_bodies_append [of mode st "[s]" rest] by simp

lemma erase_loops_sub:
  "erase_loops xs = Inr ys \<Longrightarrow> set (loop_bodies mode st ys) \<subseteq> set (loop_bodies mode st xs)"
proof (induction xs arbitrary: ys rule: erase_loops.induct)
  case 1
  then show ?case by simp
next
  case (2 s rest)
  show ?case
  proof (cases "is_FOR s \<and> count_nt_calls_and_loops s = 0")
    case True
    with "2.prems" obtain r rest' xs where
      rest: "rest = r # rest'" and e: "erase_loops rest' = Inr xs" and ys: "ys = r # xs"
      by (auto simp: and_then_eq_Inr split: list.splits)
    from "2.IH"(1) [OF True rest e]
    have "set (loop_bodies mode st xs) \<subseteq> set (loop_bodies mode st rest')" .
    then have "set (loop_bodies mode st (r # xs)) \<subseteq> set (loop_bodies mode st (r # rest'))"
      by (subst loop_bodies_Cons, subst (2) loop_bodies_Cons) auto
    also have "\<dots> \<subseteq> set (loop_bodies mode st (s # r # rest'))"
      by (subst (2) loop_bodies_Cons) auto
    finally show ?thesis using rest ys by simp
  next
    case False
    with "2.prems" obtain xs where e: "erase_loops rest = Inr xs" and ys: "ys = s # xs"
      by (auto simp: and_then_eq_Inr)
    from "2.IH"(2) [OF False e]
    have "set (loop_bodies mode st xs) \<subseteq> set (loop_bodies mode st rest)" .
    then have "set (loop_bodies mode st (s # xs)) \<subseteq> set (loop_bodies mode st (s # rest))"
      by (subst loop_bodies_Cons, subst (2) loop_bodies_Cons) auto
    with ys show ?thesis by simp
  qed
qed

lemma erase_loops_keeps:
  "erase_loops xs = Inr ys \<Longrightarrow> (stack, b) \<in> set (loop_bodies mode st xs) \<Longrightarrow>
   list_ex is_nt_tabulate_call b \<Longrightarrow> (stack, b) \<in> set (loop_bodies mode st ys)"
proof (induction xs arbitrary: ys rule: erase_loops.induct)
  case 1
  then show ?case by simp
next
  case (2 s rest)
  show ?case
  proof (cases "is_FOR s \<and> count_nt_calls_and_loops s = 0")
    case True
    with "2.prems"(1) obtain r rest' xs where
      rest: "rest = r # rest'" and e: "erase_loops rest' = Inr xs" and ys: "ys = r # xs"
      by (auto simp: and_then_eq_Inr split: list.splits)
    from True obtain vd c inc body where s: "s = For vd c inc body"
      and z: "count_statements body = 0"
      by (cases s) auto
    from count_statements_0 [OF z] "2.prems"(2,3) s
    have "(stack, b) \<in> set (loop_bodies mode st rest)"
      by (auto simp: loop_bodies_no_loops)
    then have "(stack, b) \<in> set (loop_bodies mode st [r]) \<or> (stack, b) \<in> set (loop_bodies mode st rest')"
      unfolding rest by (subst (asm) loop_bodies_Cons) auto
    then have "(stack, b) \<in> set (loop_bodies mode st [r]) \<or> (stack, b) \<in> set (loop_bodies mode st xs)"
      using "2.IH"(1) [OF True rest e _ "2.prems"(3)] by blast
    then show ?thesis unfolding ys by (subst loop_bodies_Cons) auto
  next
    case False
    with "2.prems"(1) obtain xs where e: "erase_loops rest = Inr xs" and ys: "ys = s # xs"
      by (auto simp: and_then_eq_Inr)
    from "2.prems"(2)
    have "(stack, b) \<in> set (loop_bodies mode st [s]) \<or> (stack, b) \<in> set (loop_bodies mode st rest)"
      by (subst (asm) loop_bodies_Cons) auto
    then have "(stack, b) \<in> set (loop_bodies mode st [s]) \<or> (stack, b) \<in> set (loop_bodies mode st xs)"
      using "2.IH"(2) [OF False e _ "2.prems"(3)] by blast
    then show ?thesis unfolding ys by (subst loop_bodies_Cons) auto
  qed
qed

lemma emitted_spec:
  assumes "add_nt_calls stmts lv nts cp mode = Inr res"
  shows "snd res = emitted_at mode cp nts lv stmts"
proof (cases "mode = OPENMP_PARALLEL \<and> list_ex is_FOR stmts")
  case True
  with assms show ?thesis by (auto simp: and_then_eq_Inr emitted_at_def)
next
  case False
  with assms obtain calls where c: "nt_calls nts lv = Inr calls"
    and "snd res = (if cp
           then (if mode = SINGLETHREAD
                 then [CustomCode ''std::lock_guard<fair_mutex> lock(mutex);'']
                 else if mode = OPENMP_SERIAL then [mutex_lock] else [])
           else [])
          @ calls
          @ (if cp \<and> mode = OPENMP_SERIAL then [mutex_unlock] else [])"
    by (auto simp: and_then_eq_Inr nt_stmts_of_def split: if_splits)
  with False nt_calls_spec [OF c] show ?thesis by (auto simp: emitted_at_def)
qed

lemma next_loop_vars:
  "(if mode \<noteq> OPENMP_PARALLEL \<or> starts_with ''t_'' n then lv @ [n] else lv)
     = bind_loop_var mode lv n"
  by (simp add: bind_loop_var_def)

lemma add_nt_calls_Inr:
  assumes "add_nt_calls stmts lv nts cp mode = Inr res"
  obtains s1 where "nested_loops stmts lv nts cp mode = Inr s1"
    and "erase_loops s1 = Inr (fst res)"
  using assms by (auto simp: and_then_eq_Inr split: if_splits)

lemma nested_loops_For_Inr:
  assumes "nested_loops (For vd c inc body # rest) lv nts cp mode = Inr out"
  obtains r rest' where
    "add_nt_calls body (bind_loop_var mode lv (vd_name vd)) nts cp mode = Inr r"
    and "nested_loops rest lv nts cp mode = Inr rest'"
    and "out = For vd c inc (fst r @ snd r) # rest'"
proof -
  from assms have "and_then (add_nt_calls body (bind_loop_var mode lv (vd_name vd)) nts cp mode)
      (\<lambda>res. and_then (nested_loops rest lv nts cp mode)
         (\<lambda>rest'. Inr (For vd c inc (fst res @ snd res) # rest'))) = Inr out"
    by (simp only: nested_loops.simps Let_def next_loop_vars)
  then obtain r rest' where
    "add_nt_calls body (bind_loop_var mode lv (vd_name vd)) nts cp mode = Inr r"
    and "nested_loops rest lv nts cp mode = Inr rest'"
    and "out = For vd c inc (fst r @ snd r) # rest'"
    unfolding and_then_eq_Inr by blast
  then show thesis by (rule that)
qed

lemma loop_bodies_filled:
  "loop_bodies mode st (kept @ emitted_at mode cp nts st' level) = loop_bodies mode st kept"
  by (simp add: loop_bodies_append loop_bodies_no_loops emitted_at_no_loops)

lemma placement_plain:
  "add_nt_calls stmts lv nts cp mode = Inr res \<Longrightarrow> plain (fst res) = plain stmts"
  "nested_loops stmts lv nts cp mode = Inr out \<Longrightarrow> plain out = plain stmts"
proof (induction stmts lv nts cp mode and stmts lv nts cp mode arbitrary: res and out
    rule: add_nt_calls_nested_loops.induct)
  case (1 stmts lv nts cp mode)
  from "1.prems" obtain s1 where n: "nested_loops stmts lv nts cp mode = Inr s1"
    and e: "erase_loops s1 = Inr (fst res)"
    by (rule add_nt_calls_Inr)
  from erase_loops_plain [OF e] "1.IH" [OF n] show ?case by simp
next
  case (3 vd c inc body rest lv nts cp mode)
  from "3.prems" obtain r rest' where
    n: "nested_loops rest lv nts cp mode = Inr rest'"
    and out: "out = For vd c inc (fst r @ snd r) # rest'"
    by (rule nested_loops_For_Inr)
  from "3.IH"(2) [OF refl n] out show ?case by (simp add: plain_def)
qed (auto simp: and_then_eq_Inr plain_def)

lemma placement_sound:
  "add_nt_calls stmts lv nts cp mode = Inr res \<Longrightarrow>
     \<forall>(stack, body') \<in> set (loop_bodies mode lv (fst res)).
       \<exists>body kept. (stack, body) \<in> set (loop_bodies mode lv stmts)
         \<and> body' = kept @ emitted_at mode cp nts stack body \<and> plain kept = plain body"
  "nested_loops stmts lv nts cp mode = Inr out \<Longrightarrow>
     \<forall>(stack, body') \<in> set (loop_bodies mode lv out).
       \<exists>body kept. (stack, body) \<in> set (loop_bodies mode lv stmts)
         \<and> body' = kept @ emitted_at mode cp nts stack body \<and> plain kept = plain body"
proof (induction stmts lv nts cp mode and stmts lv nts cp mode arbitrary: res and out
    rule: add_nt_calls_nested_loops.induct)
  case (1 stmts lv nts cp mode)
  from "1.prems" obtain s1 where n: "nested_loops stmts lv nts cp mode = Inr s1"
    and e: "erase_loops s1 = Inr (fst res)"
    by (rule add_nt_calls_Inr)
  from erase_loops_sub [OF e, of mode lv] "1.IH" [OF n] show ?case by blast
next
  case (3 vd c inc body rest lv nts cp mode)
  let ?st = "bind_loop_var mode lv (vd_name vd)"
  from "3.prems" obtain r rest' where
    a: "add_nt_calls body ?st nts cp mode = Inr r"
    and n: "nested_loops rest lv nts cp mode = Inr rest'"
    and out: "out = For vd c inc (fst r @ snd r) # rest'"
    by (rule nested_loops_For_Inr)
  note em = emitted_spec [OF a]
  note pl = placement_plain(1) [OF a]
  note ih1 = "3.IH"(1) [OF next_loop_vars [symmetric] a]
  note ih2 = "3.IH"(2) [OF refl n]
  have lb: "loop_bodies mode lv out
      = (?st, fst r @ emitted_at mode cp nts ?st body) # loop_bodies mode ?st (fst r)
          @ loop_bodies mode lv rest'"
    unfolding out em by (simp add: loop_bodies_filled)
  show ?case
  proof (intro ballI, clarify)
    fix stack body'
    assume "(stack, body') \<in> set (loop_bodies mode lv out)"
    then consider "stack = ?st" "body' = fst r @ emitted_at mode cp nts ?st body"
      | "(stack, body') \<in> set (loop_bodies mode ?st (fst r))"
      | "(stack, body') \<in> set (loop_bodies mode lv rest')"
      unfolding lb by auto
    then show "\<exists>b kept. (stack, b) \<in> set (loop_bodies mode lv (For vd c inc body # rest))
         \<and> body' = kept @ emitted_at mode cp nts stack b \<and> plain kept = plain b"
    proof cases
      case 1
      with pl show ?thesis by auto
    next
      case 2
      with ih1 obtain body0 kept where
        "(stack, body0) \<in> set (loop_bodies mode ?st body)"
        and "body' = kept @ emitted_at mode cp nts stack body0" and "plain kept = plain body0"
        by blast
      then show ?thesis by auto
    next
      case 3
      with ih2 obtain body0 kept where
        "(stack, body0) \<in> set (loop_bodies mode lv rest)"
        and "body' = kept @ emitted_at mode cp nts stack body0" and "plain kept = plain body0"
        by blast
      then show ?thesis by auto
    qed
  qed
qed (auto simp: and_then_eq_Inr)

lemma placement_complete:
  "add_nt_calls stmts lv nts cp mode = Inr res \<Longrightarrow>
     \<forall>(stack, body) \<in> set (loop_bodies mode lv stmts).
       list_ex is_nt_tabulate_call (emitted_at mode cp nts stack body) \<longrightarrow>
       (\<exists>kept. (stack, kept @ emitted_at mode cp nts stack body)
                  \<in> set (loop_bodies mode lv (fst res))
              \<and> plain kept = plain body)"
  "nested_loops stmts lv nts cp mode = Inr out \<Longrightarrow>
     \<forall>(stack, body) \<in> set (loop_bodies mode lv stmts).
       list_ex is_nt_tabulate_call (emitted_at mode cp nts stack body) \<longrightarrow>
       (\<exists>kept. (stack, kept @ emitted_at mode cp nts stack body)
                  \<in> set (loop_bodies mode lv out)
              \<and> plain kept = plain body)"
proof (induction stmts lv nts cp mode and stmts lv nts cp mode arbitrary: res and out
    rule: add_nt_calls_nested_loops.induct)
  case (1 stmts lv nts cp mode)
  from "1.prems" obtain s1 where n: "nested_loops stmts lv nts cp mode = Inr s1"
    and e: "erase_loops s1 = Inr (fst res)"
    by (rule add_nt_calls_Inr)
  show ?case
  proof (intro ballI, clarify)
    fix stack body
    assume m: "(stack, body) \<in> set (loop_bodies mode lv stmts)"
      and c: "list_ex is_nt_tabulate_call (emitted_at mode cp nts stack body)"
    with "1.IH" [OF n] obtain kept where
      k: "(stack, kept @ emitted_at mode cp nts stack body) \<in> set (loop_bodies mode lv s1)"
      and p: "plain kept = plain body"
      by blast
    from c have "list_ex is_nt_tabulate_call (kept @ emitted_at mode cp nts stack body)"
      by (auto simp: list_ex_iff)
    from erase_loops_keeps [OF e k this] p
    show "\<exists>kept. (stack, kept @ emitted_at mode cp nts stack body)
                  \<in> set (loop_bodies mode lv (fst res)) \<and> plain kept = plain body"
      by blast
  qed
next
  case (3 vd c inc body rest lv nts cp mode)
  let ?st = "bind_loop_var mode lv (vd_name vd)"
  from "3.prems" obtain r rest' where
    a: "add_nt_calls body ?st nts cp mode = Inr r"
    and n: "nested_loops rest lv nts cp mode = Inr rest'"
    and out: "out = For vd c inc (fst r @ snd r) # rest'"
    by (rule nested_loops_For_Inr)
  note em = emitted_spec [OF a]
  note pl = placement_plain(1) [OF a]
  note ih1 = "3.IH"(1) [OF next_loop_vars [symmetric] a]
  note ih2 = "3.IH"(2) [OF refl n]
  have lb: "loop_bodies mode lv out
      = (?st, fst r @ emitted_at mode cp nts ?st body) # loop_bodies mode ?st (fst r)
          @ loop_bodies mode lv rest'"
    unfolding out em by (simp add: loop_bodies_filled)
  show ?case
  proof (intro ballI, clarify)
    fix stack b
    assume "(stack, b) \<in> set (loop_bodies mode lv (For vd c inc body # rest))"
      and c: "list_ex is_nt_tabulate_call (emitted_at mode cp nts stack b)"
    then consider "stack = ?st" "b = body"
      | "(stack, b) \<in> set (loop_bodies mode ?st body)"
      | "(stack, b) \<in> set (loop_bodies mode lv rest)"
      by auto
    then show "\<exists>kept. (stack, kept @ emitted_at mode cp nts stack b)
                  \<in> set (loop_bodies mode lv out) \<and> plain kept = plain b"
    proof cases
      case 1
      with pl show ?thesis unfolding lb by auto
    next
      case 2
      with ih1 c obtain kept where
        "(stack, kept @ emitted_at mode cp nts stack b) \<in> set (loop_bodies mode ?st (fst r))"
        and "plain kept = plain b"
        by blast
      then show ?thesis unfolding lb by auto
    next
      case 3
      with ih2 c obtain kept where
        "(stack, kept @ emitted_at mode cp nts stack b) \<in> set (loop_bodies mode lv rest')"
        and "plain kept = plain b"
        by blast
      then show ?thesis unfolding lb by auto
    qed
  qed
qed (auto simp: and_then_eq_Inr)

lemma index_arg_inj: "index_arg i = index_arg j \<Longrightarrow> i = j"
  by (cases i; cases j) (auto simp: index_arg_def split: if_splits)

lemma call_of_one_live:
  assumes "live_indices nt = [i]" and "call_of nt' = call_of nt"
  shows "live_indices nt' = [i]"
proof -
  from assms have "map index_arg (live_indices nt') = [index_arg i]"
    by (simp add: call_of_def)
  then show ?thesis by (auto simp: map_eq_Cons_conv dest: index_arg_inj)
qed

lemma stmts_at_set:
  "(stack, s) \<in> set (stmts_at mode lv xs) \<longleftrightarrow>
     (stack = lv \<and> s \<in> set (plain xs))
     \<or> (\<exists>b. (stack, b) \<in> set (loop_bodies mode lv xs) \<and> s \<in> set (plain b))"
  by (induction mode lv xs rule: loop_bodies.induct) (auto simp: plain_def)

lemma plain_emitted_at: "plain (emitted_at mode cp nts st level) = emitted_at mode cp nts st level"
  using emitted_at_no_loops [of mode cp nts st level] by (simp add: plain_def list_ex_iff)

lemma plain_append: "plain (xs @ ys) = plain xs @ plain ys"
  by (simp add: plain_def)

lemma emitted_at_one_live_only:
  assumes "live_indices nt = [i]"
    and "call_of nt \<in> set (emitted_at mode cp nts stack level)"
  shows "stack = [] \<or> stack = [snd i]"
proof -
  from assms(2) have "call_of nt \<in> set (map call_of (filter (placed stack) nts))"
    by (auto simp: emitted_at_def call_of_def mutex_lock_def mutex_unlock_def
        split: if_splits)
  then obtain nt' where "placed stack nt'" and "call_of nt' = call_of nt" by auto
  with call_of_one_live [OF assms(1)] have "placed stack nt'" and "live_indices nt' = [i]"
    by auto
  with placed_one_live [of nt' i stack] show ?thesis by simp
qed

lemma emitted_at_one_live_present:
  assumes "nt \<in> set nts" and "is_tabulated nt" and "live_indices nt = [i]"
    and "\<not> (mode = OPENMP_PARALLEL \<and> list_ex is_FOR level)"
    and "stack = [] \<or> stack = [snd i]"
  shows "call_of nt \<in> set (emitted_at mode cp nts stack level)"
proof -
  from placed_one_live [OF assms(3), of stack] assms(2,5) have "placed stack nt" by simp
  with assms(1,4) show ?thesis by (auto simp: emitted_at_def)
qed

lemma placement_only:
  assumes run: "add_nt_calls stmts lv nts cp mode = Inr (stmts', emitted)"
    and live: "live_indices nt = [i]"
    and fresh: "\<forall>stack. (stack, call_of nt) \<notin> set (stmts_at mode lv stmts)"
    and at: "(stack, call_of nt) \<in> set (stmts_at mode lv (stmts' @ emitted))"
  shows "stack = [] \<or> stack = [snd i]"
proof -
  note em = emitted_spec [OF run, simplified]
  note pl = placement_plain(1) [OF run, simplified]
  from at consider "stack = lv" "call_of nt \<in> set (plain stmts)"
    | "stack = lv" "call_of nt \<in> set emitted"
    | b where "(stack, b) \<in> set (loop_bodies mode lv stmts')" "call_of nt \<in> set (plain b)"
    unfolding stmts_at_set em
    by (auto simp: plain_append plain_emitted_at pl loop_bodies_filled)
  then show ?thesis
  proof cases
    case 1
    with fresh show ?thesis by (auto simp: stmts_at_set)
  next
    case 2
    with emitted_at_one_live_only [OF live] em show ?thesis by blast
  next
    case 3
    with placement_sound(1) [OF run] obtain body kept where
      m: "(stack, body) \<in> set (loop_bodies mode lv stmts)"
      and b: "b = kept @ emitted_at mode cp nts stack body" and p: "plain kept = plain body"
      by fastforce
    from 3(2) b p have "call_of nt \<in> set (plain body)
        \<or> call_of nt \<in> set (emitted_at mode cp nts stack body)"
      by (auto simp: plain_append plain_emitted_at)
    then show ?thesis
    proof
      assume "call_of nt \<in> set (plain body)"
      with m fresh show ?thesis by (auto simp: stmts_at_set)
    next
      assume "call_of nt \<in> set (emitted_at mode cp nts stack body)"
      with emitted_at_one_live_only [OF live] show ?thesis by blast
    qed
  qed
qed

lemma placement_present:
  assumes run: "add_nt_calls stmts lv nts cp mode = Inr (stmts', emitted)"
    and nt: "nt \<in> set nts" "is_tabulated nt" "live_indices nt = [i]"
    and m: "(stack, body) \<in> set (loop_bodies mode lv stmts)"
    and st: "stack = [] \<or> stack = [snd i]"
    and par: "\<not> (mode = OPENMP_PARALLEL \<and> list_ex is_FOR body)"
    and name: "is_nt_tabulate_call (call_of nt)"
  shows "(stack, call_of nt) \<in> set (stmts_at mode lv stmts')"
proof -
  from emitted_at_one_live_present [OF nt par st]
  have c: "call_of nt \<in> set (emitted_at mode cp nts stack body)" .
  with name have "list_ex is_nt_tabulate_call (emitted_at mode cp nts stack body)"
    by (auto simp: list_ex_iff)
  with placement_complete(1) [OF run] m obtain kept where
    k: "(stack, kept @ emitted_at mode cp nts stack body) \<in> set (loop_bodies mode lv stmts')"
    by fastforce
  from c have "call_of nt \<in> set (plain (kept @ emitted_at mode cp nts stack body))"
    by (simp add: plain_append plain_emitted_at)
  with k show ?thesis unfolding stmts_at_set by blast
qed

text \<open>
  C4, as stated, fails: for the one-track grammar and the nonterminal whose left
  index is eliminated, \<^verbatim>\<open>add_nt_calls\<close> over the single-thread traversal puts
  the call \<^verbatim>\<open>nt_tabulate_hairpin(t_0_j)\<close> into the column loop (depth 1, after
  the end state of the row) and also returns it for the top level (depth 0, the
  top right cell): with an empty stack the count of bound indices, zero, equals
  the stack's size.
\<close>

theorem add_nt_calls_depth_0_counterexample:
  "cyk_traversal_singlethread ex_ast SINGLETHREAD = Inr ex_traversal
   \<and> add_nt_calls ex_traversal [] [ex_nt_linear] False SINGLETHREAD
       = Inr (ex_traversal_linear,
              [Fn_Call ''nt_tabulate_hairpin'' [Expr_Vacc ''t_0_j''] False])
   \<and> live_indices ex_nt_linear = [(False, ''t_0_j'')]"
proof (intro conjI)
  show "cyk_traversal_singlethread ex_ast SINGLETHREAD = Inr ex_traversal"
    by code_simp
  show "add_nt_calls ex_traversal [] [ex_nt_linear] False SINGLETHREAD
       = Inr (ex_traversal_linear,
              [Fn_Call ''nt_tabulate_hairpin'' [Expr_Vacc ''t_0_j''] False])"
    by code_simp
  show "live_indices ex_nt_linear = [(False, ''t_0_j'')]"
    by code_simp
qed

text \<open>
  C4, amended. What \<^verbatim>\<open>add_nt_calls\<close> returns for a level is what the
  specification emits for the stack of that level: nothing when the mode is
  \<^verbatim>\<open>OPENMP_PARALLEL\<close> and the level holds a loop; otherwise, between the lock
  statements of the checkpointing modes, one call for each tabulated nonterminal
  whose number of non-eliminated indices bound by the stack equals the size of
  the stack, in topological order, and no other call. A call omits the
  eliminated indices, passes every remaining left index decremented by one and
  every remaining right index unchanged. The statements that are no loops stay
  where they were; every loop left in the tree has at the end of its body the
  statements emitted for its stack; and a loop that is given a call of a
  \<^verbatim>\<open>nt_tabulate_\<close> function is left in the tree. So for a nonterminal with a
  single live index, the call is returned for the empty stack (depth 0), it
  stands in every loop whose stack is just the live index (depth 1), and in a
  tree that did not hold it before it stands under no other stack: not at depth
  2 and not under the loop of the eliminated index.
\<close>

theorem add_nt_calls_placement:
  assumes "add_nt_calls stmts loop_vars orderedNTs with_checkpoint mode = Inr (stmts', emitted)"
  shows "emitted = emitted_at mode with_checkpoint orderedNTs loop_vars stmts
       \<and> (mode = OPENMP_PARALLEL \<and> list_ex is_FOR stmts \<longrightarrow> emitted = [])
       \<and> plain stmts' = plain stmts
       \<and> (\<forall>(stack, body') \<in> set (loop_bodies mode loop_vars stmts').
            \<exists>body kept. (stack, body) \<in> set (loop_bodies mode loop_vars stmts)
              \<and> body' = kept @ emitted_at mode with_checkpoint orderedNTs stack body
              \<and> plain kept = plain body)
       \<and> (\<forall>(stack, body) \<in> set (loop_bodies mode loop_vars stmts).
            list_ex is_nt_tabulate_call (emitted_at mode with_checkpoint orderedNTs stack body)
            \<longrightarrow> (\<exists>kept. (stack, kept @ emitted_at mode with_checkpoint orderedNTs stack body)
                           \<in> set (loop_bodies mode loop_vars stmts')
                       \<and> plain kept = plain body))
       \<and> (\<forall>nt i. nt \<in> set orderedNTs \<and> is_tabulated nt \<and> live_indices nt = [i] \<longrightarrow>
            ((loop_vars = [] \<or> loop_vars = [snd i])
                \<and> \<not> (mode = OPENMP_PARALLEL \<and> list_ex is_FOR stmts)
              \<longrightarrow> call_of nt \<in> set emitted)
          \<and> (\<forall>(stack, body) \<in> set (loop_bodies mode loop_vars stmts).
                (stack = [] \<or> stack = [snd i])
                  \<and> \<not> (mode = OPENMP_PARALLEL \<and> list_ex is_FOR body)
                  \<and> is_nt_tabulate_call (call_of nt)
                \<longrightarrow> (stack, call_of nt) \<in> set (stmts_at mode loop_vars stmts'))
          \<and> ((\<forall>stack. (stack, call_of nt) \<notin> set (stmts_at mode loop_vars stmts))
              \<longrightarrow> (\<forall>stack. (stack, call_of nt)
                                \<in> set (stmts_at mode loop_vars (stmts' @ emitted))
                              \<longrightarrow> stack = [] \<or> stack = [snd i])))"
proof (intro conjI)
  from emitted_spec [OF assms]
  show e: "emitted = emitted_at mode with_checkpoint orderedNTs loop_vars stmts" by simp
  show "mode = OPENMP_PARALLEL \<and> list_ex is_FOR stmts \<longrightarrow> emitted = []"
    unfolding e by (simp add: emitted_at_def)
  from placement_plain(1) [OF assms] show "plain stmts' = plain stmts" by simp
  from placement_sound(1) [OF assms]
  show "\<forall>(stack, body') \<in> set (loop_bodies mode loop_vars stmts').
            \<exists>body kept. (stack, body) \<in> set (loop_bodies mode loop_vars stmts)
              \<and> body' = kept @ emitted_at mode with_checkpoint orderedNTs stack body
              \<and> plain kept = plain body"
    by simp
  from placement_complete(1) [OF assms]
  show "\<forall>(stack, body) \<in> set (loop_bodies mode loop_vars stmts).
            list_ex is_nt_tabulate_call (emitted_at mode with_checkpoint orderedNTs stack body)
            \<longrightarrow> (\<exists>kept. (stack, kept @ emitted_at mode with_checkpoint orderedNTs stack body)
                           \<in> set (loop_bodies mode loop_vars stmts')
                       \<and> plain kept = plain body)"
    by simp
  show "\<forall>nt i. nt \<in> set orderedNTs \<and> is_tabulated nt \<and> live_indices nt = [i] \<longrightarrow>
            ((loop_vars = [] \<or> loop_vars = [snd i])
                \<and> \<not> (mode = OPENMP_PARALLEL \<and> list_ex is_FOR stmts)
              \<longrightarrow> call_of nt \<in> set emitted)
          \<and> (\<forall>(stack, body) \<in> set (loop_bodies mode loop_vars stmts).
                (stack = [] \<or> stack = [snd i])
                  \<and> \<not> (mode = OPENMP_PARALLEL \<and> list_ex is_FOR body)
                  \<and> is_nt_tabulate_call (call_of nt)
                \<longrightarrow> (stack, call_of nt) \<in> set (stmts_at mode loop_vars stmts'))
          \<and> ((\<forall>stack. (stack, call_of nt) \<notin> set (stmts_at mode loop_vars stmts))
              \<longrightarrow> (\<forall>stack. (stack, call_of nt)
                                \<in> set (stmts_at mode loop_vars (stmts' @ emitted))
                              \<longrightarrow> stack = [] \<or> stack = [snd i]))"
  proof (intro allI impI conjI ballI; (elim conjE)?)
    fix nt i
    assume nt: "nt \<in> set orderedNTs" "is_tabulated nt" "live_indices nt = [i]"
    {
      assume "loop_vars = [] \<or> loop_vars = [snd i]"
        and "\<not> (mode = OPENMP_PARALLEL \<and> list_ex is_FOR stmts)"
      from emitted_at_one_live_present [OF nt this(2,1)]
      show "call_of nt \<in> set emitted" unfolding e .
    next
      fix x
      assume x: "x \<in> set (loop_bodies mode loop_vars stmts)"
      show "case x of (stack, body) \<Rightarrow>
                (stack = [] \<or> stack = [snd i])
                  \<and> \<not> (mode = OPENMP_PARALLEL \<and> list_ex is_FOR body)
                  \<and> is_nt_tabulate_call (call_of nt)
                \<longrightarrow> (stack, call_of nt) \<in> set (stmts_at mode loop_vars stmts')"
      proof (cases x)
        case (Pair stack body)
        with x placement_present [OF assms nt, of stack body] show ?thesis by simp
      qed
    next
      fix stack
      assume "\<forall>stack. (stack, call_of nt) \<notin> set (stmts_at mode loop_vars stmts)"
        and "(stack, call_of nt) \<in> set (stmts_at mode loop_vars (stmts' @ emitted))"
      from placement_only [OF assms nt(3) this]
      show "stack = [] \<or> stack = [snd i]" .
    }
  qed
qed

theorem add_nt_calls_placement_witness:
  "add_nt_calls ex_traversal [] [ex_nt_linear, ex_nt] False SINGLETHREAD
     = Inr (ex_traversal_filled, [call_of ex_nt_linear, call_of ex_nt])
   \<and> call_of ex_nt_linear = Fn_Call ''nt_tabulate_hairpin'' [Expr_Vacc ''t_0_j''] False
   \<and> call_of ex_nt
       = Fn_Call ''nt_tabulate_struct''
           [Expr_Minus (Expr_Vacc ''t_0_i'') (Expr_Const 1), Expr_Vacc ''t_0_j''] False
   \<and> emitted_at SINGLETHREAD False [ex_nt_linear, ex_nt] [] ex_traversal
       = [call_of ex_nt_linear, call_of ex_nt]
   \<and> plain ex_traversal_filled = plain ex_traversal
   \<and> live_indices ex_nt_linear = [(False, ''t_0_j'')]
   \<and> ([''t_0_j''], call_of ex_nt_linear)
       \<in> set (stmts_at SINGLETHREAD [] ex_traversal_filled)
   \<and> ([''t_0_j'', ''t_0_i''], call_of ex_nt)
       \<in> set (stmts_at SINGLETHREAD [] ex_traversal_filled)
   \<and> ([''t_0_j'', ''t_0_i''], call_of ex_nt_linear)
       \<notin> set (stmts_at SINGLETHREAD []
                (ex_traversal_filled @ [call_of ex_nt_linear, call_of ex_nt]))
   \<and> ([''t_0_i''], call_of ex_nt_linear)
       \<notin> set (stmts_at SINGLETHREAD []
                (ex_traversal_filled @ [call_of ex_nt_linear, call_of ex_nt]))"
proof -
  have r: "add_nt_calls ex_traversal [] [ex_nt_linear, ex_nt] False SINGLETHREAD
     = Inr (ex_traversal_filled, [call_of ex_nt_linear, call_of ex_nt])"
    by code_simp
  have c: "call_of ex_nt_linear = Fn_Call ''nt_tabulate_hairpin'' [Expr_Vacc ''t_0_j''] False"
    by code_simp
  have c': "call_of ex_nt
       = Fn_Call ''nt_tabulate_struct''
           [Expr_Minus (Expr_Vacc ''t_0_i'') (Expr_Const 1), Expr_Vacc ''t_0_j''] False"
    by code_simp
  have l: "live_indices ex_nt_linear = [(False, ''t_0_j'')]"
    by (simp add: live_indices_def track_indices_def ex_nt_linear_def)
  have t: "is_tabulated ex_nt_linear" by (simp add: ex_nt_linear_def)
  note placement = add_nt_calls_placement [OF r]
  from placement
  have e: "emitted_at SINGLETHREAD False [ex_nt_linear, ex_nt] [] ex_traversal
       = [call_of ex_nt_linear, call_of ex_nt]"
    by (simp only: simp_thms)
  from placement have p: "plain ex_traversal_filled = plain ex_traversal"
    by (simp only: simp_thms)
  note depth = placement [THEN conjunct2, THEN conjunct2, THEN conjunct2, THEN conjunct2,
      THEN conjunct2, rule_format, where nt = ex_nt_linear and i = "(False, ''t_0_j'')"]
  have column: "([''t_0_j''],
       [For \<lparr>vd_type = Type_Size, vd_name = ''t_0_i'',
              vd_rhs = Expr_Plus (Expr_Vacc ''t_0_j'') (Expr_Const 1)\<rparr>
          (Expr_Greater (Expr_Vacc ''t_0_i'') (Expr_Const 1))
          (Some \<lparr>va_name = ''t_0_i'', va_op = OP_PLUS, va_rhs = Expr_Const (- 1)\<rparr>)
          [],
        Var_Decl \<lparr>vd_type = Type_Size, vd_name = ''t_0_i'', vd_rhs = Expr_Const 1\<rparr>])
      \<in> set (loop_bodies SINGLETHREAD [] ex_traversal)"
    by (simp add: ex_traversal_def bind_loop_var_def)
  have name: "is_nt_tabulate_call (call_of ex_nt_linear)"
    unfolding c by (simp add: starts_with_def)
  have fresh: "\<forall>stack. (stack, call_of ex_nt_linear)
      \<notin> set (stmts_at SINGLETHREAD [] ex_traversal)"
    unfolding c by (simp add: ex_traversal_def)
  from depth [THEN conjunct2, THEN conjunct1, rule_format, OF _ column] l t name
  have d1: "([''t_0_j''], call_of ex_nt_linear)
       \<in> set (stmts_at SINGLETHREAD [] ex_traversal_filled)"
    by simp
  have d2: "([''t_0_j'', ''t_0_i''], call_of ex_nt)
       \<in> set (stmts_at SINGLETHREAD [] ex_traversal_filled)"
    by (simp add: ex_traversal_filled_def bind_loop_var_def c c')
  note only = depth [THEN conjunct2, THEN conjunct2, rule_format, OF _ fresh [rule_format]]
  from only [of "[''t_0_j'', ''t_0_i'']"] l t
  have d3: "([''t_0_j'', ''t_0_i''], call_of ex_nt_linear)
       \<notin> set (stmts_at SINGLETHREAD []
                (ex_traversal_filled @ [call_of ex_nt_linear, call_of ex_nt]))"
    by auto
  from only [of "[''t_0_i'']"] l t
  have d4: "([''t_0_i''], call_of ex_nt_linear)
       \<notin> set (stmts_at SINGLETHREAD []
                (ex_traversal_filled @ [call_of ex_nt_linear, call_of ex_nt]))"
    by auto
  from r c c' e p l d1 d2 d3 d4 show ?thesis by (intro conjI)
qed

subsection \<open>Loop starts under checkpointing\<close>

lemma is_postinc_loaded [simp]: "is_postinc (x @ ''_loaded++'')"
proof -
  have "x @ ''_loaded++'' = (x @ ''_loaded'') @ ''++''" by simp
  then show ?thesis unfolding is_postinc_def by (simp del: append_assoc)
qed

lemma postinc_var_loaded [simp]: "postinc_var (x @ ''_loaded++'') = x @ ''_loaded''"
proof -
  have "x @ ''_loaded++'' = (x @ ''_loaded'') @ ''++''" by simp
  then show ?thesis unfolding postinc_var_def by (simp del: append_assoc)
qed

lemma checkpoint_start_read:
  assumes "\<not> is_postinc rb"
  shows "eval sz (Expr_Cond (Expr_Vacc (rb @ ''_loaded++'')) start (Expr_Vacc rb)) \<sigma> =
         (if \<sigma> (rb @ ''_loaded'') = 0
          then Some (\<sigma> rb, \<sigma>(rb @ ''_loaded'' := \<sigma> (rb @ ''_loaded'') + 1))
          else eval sz start (\<sigma>(rb @ ''_loaded'' := \<sigma> (rb @ ''_loaded'') + 1)))"
  using assms by simp

lemma checkpoint_start_later_reads:
  assumes "\<not> is_postinc rb"
    and "\<forall>\<tau>. eval sz start \<tau> = Some (d \<tau>, \<tau>)"
    and "\<forall>\<tau> v. d (\<tau>(rb @ ''_loaded'' := v)) = d \<tau>"
    and "0 < \<sigma> (rb @ ''_loaded'')"
  shows "eval_times sz (Expr_Cond (Expr_Vacc (rb @ ''_loaded++'')) start (Expr_Vacc rb)) n \<sigma> =
         Some (replicate n (d \<sigma>), \<sigma>(rb @ ''_loaded'' := \<sigma> (rb @ ''_loaded'') + int n))"
  using assms(4)
proof (induction n arbitrary: \<sigma>)
  case 0
  then show ?case by simp
next
  case (Suc n)
  let ?f = "rb @ ''_loaded''"
  let ?\<tau> = "\<sigma>(?f := \<sigma> ?f + 1)"
  have 1: "eval sz (Expr_Cond (Expr_Vacc (rb @ ''_loaded++'')) start (Expr_Vacc rb)) \<sigma>
        = Some (d \<sigma>, ?\<tau>)"
    using Suc.prems assms(2,3) by (subst checkpoint_start_read [OF assms(1)]) simp
  have pos: "0 < ?\<tau> ?f" using Suc.prems by simp
  have d: "d ?\<tau> = d \<sigma>" using assms(3) by blast
  have u: "?\<tau>(?f := ?\<tau> ?f + int n) = \<sigma>(?f := \<sigma> ?f + int (Suc n))"
    by (simp add: add.assoc)
  from Suc.IH [of ?\<tau>, OF pos]
  have "eval_times sz (Expr_Cond (Expr_Vacc (rb @ ''_loaded++'')) start (Expr_Vacc rb)) n ?\<tau>
      = Some (replicate n (d \<sigma>), \<sigma>(?f := \<sigma> ?f + int (Suc n)))"
    by (simp only: d u)
  with 1 show ?case
    by (simp del: eval.simps add: fun_eq_iff)
qed

text \<open>
  C3, amended. Under checkpointing, outside the mode \<^verbatim>\<open>OPENMP_PARALLEL\<close>, the
  start expression of every loop built by \<^verbatim>\<open>get_for_column\<close> and
  \<^verbatim>\<open>get_for_row\<close> is a conditional over the post-incremented loaded flag of
  the loop variable. Read repeatedly, with a default start that has no effect
  and does not depend on the flag, its first read yields the restored value
  (the value the loop variable holds) when the flag is still zero and the
  default start otherwise; every later read yields the default start; and each
  read counts the flag up by one.
\<close>

theorem get_for_start_with_checkpoint:
  assumes "with_checkpoint" and "mode \<noteq> OPENMP_PARALLEL" and "\<not> is_postinc rb"
    and "build = get_for_column \<or> build = get_for_row"
    and "\<forall>\<tau>. eval sz start \<tau> = Some (d \<tau>, \<tau>)"
    and "\<forall>\<tau> v. d (\<tau>(rb @ ''_loaded'' := v)) = d \<tau>"
    and "0 \<le> \<sigma> (rb @ ''_loaded'')"
  shows "\<exists>r. build rb start end_expr with_checkpoint mode = Inr r
           \<and> loop_start (loop r)
               = Some (Expr_Cond (Expr_Vacc (rb @ ''_loaded++'')) start (Expr_Vacc rb))
           \<and> eval_times sz (Expr_Cond (Expr_Vacc (rb @ ''_loaded++'')) start (Expr_Vacc rb))
               (Suc n) \<sigma>
               = Some ((if \<sigma> (rb @ ''_loaded'') = 0 then \<sigma> rb else d \<sigma>) # replicate n (d \<sigma>),
                       \<sigma>(rb @ ''_loaded'' := \<sigma> (rb @ ''_loaded'') + 1 + int n))"
proof -
  let ?f = "rb @ ''_loaded''"
  let ?e = "Expr_Cond (Expr_Vacc (rb @ ''_loaded++'')) start (Expr_Vacc rb)"
  let ?\<tau> = "\<sigma>(?f := \<sigma> ?f + 1)"
  from assms(1,2,4) obtain r where r: "build rb start end_expr with_checkpoint mode = Inr r"
    and s: "loop_start (loop r) = Some ?e"
    by (auto simp: get_for_column_def get_for_row_def CYKloop_ctor_def Let_def)
  have first: "eval sz ?e \<sigma> = Some ((if \<sigma> ?f = 0 then \<sigma> rb else d \<sigma>), ?\<tau>)"
    using assms(5,6) by (subst checkpoint_start_read [OF assms(3)]) simp
  have pos: "0 < ?\<tau> ?f" using assms(7) by simp
  have d: "d ?\<tau> = d \<sigma>" using assms(6) by blast
  have u: "?\<tau>(?f := ?\<tau> ?f + int n) = \<sigma>(?f := \<sigma> ?f + 1 + int n)"
    by simp
  from checkpoint_start_later_reads
         [where \<sigma> = "?\<tau>" and d = d and n = n, OF assms(3) assms(5) assms(6) pos]
  have later: "eval_times sz ?e n ?\<tau> = Some (replicate n (d \<sigma>), \<sigma>(?f := \<sigma> ?f + 1 + int n))"
    by (simp only: d u)
  from first later have "eval_times sz ?e (Suc n) \<sigma>
     = Some ((if \<sigma> ?f = 0 then \<sigma> rb else d \<sigma>) # replicate n (d \<sigma>), \<sigma>(?f := \<sigma> ?f + 1 + int n))"
    by (simp del: eval.simps)
  with r s show ?thesis by blast
qed

text \<open>
  C3, as stated, fails: it has the two branches the wrong way round. With the
  flag of \<^verbatim>\<open>t_0_j\<close> at zero and \<^verbatim>\<open>t_0_j\<close> restored to 5, the first read
  of the column loop's start yields 5, the restored value, not the default
  start 0; the read after it yields 0, not the restored value.
\<close>

theorem get_for_column_first_read_counterexample:
  "get_for_column ''t_0_j'' (Expr_Const 0) (Expr_Fn_Call ''size'' [''t_0_seq''] True) True
     SINGLETHREAD
    = Inr \<lparr>loop = For \<lparr>vd_type = Type_External [], vd_name = ''t_0_j'', vd_rhs = ex_start\<rparr>
                     (Expr_Less (Expr_Vacc ''t_0_j'') (Expr_Fn_Call ''size'' [''t_0_seq''] True))
                     None [],
           end_state = \<lparr>vd_type = Type_External [], vd_name = ''t_0_j'',
                        vd_rhs = Expr_Fn_Call ''size'' [''t_0_seq''] True\<rparr>\<rparr>
   \<and> ex_store ''t_0_j_loaded'' = 0 \<and> ex_store ''t_0_j'' = 5
   \<and> eval ex_sizes (Expr_Const 0) ex_store = Some (0, ex_store)
   \<and> eval ex_sizes ex_start ex_store = Some (5, ex_store(''t_0_j_loaded'' := 1))
   \<and> eval ex_sizes ex_start (ex_store(''t_0_j_loaded'' := 1))
       = Some (0, ex_store(''t_0_j_loaded'' := 2))"
  by (simp add: get_for_column_def CYKloop_ctor_def Let_def ex_start_def ex_store_def
      is_postinc_def postinc_var_def)

theorem get_for_start_with_checkpoint_witness:
  "get_for_row ''t_0_i'' (Expr_Const 7) (Expr_Const 1) True OPENMP_SERIAL
     = Inr \<lparr>loop = For \<lparr>vd_type = Type_External [], vd_name = ''t_0_i'',
                          vd_rhs = Expr_Cond (Expr_Vacc ''t_0_i_loaded++'') (Expr_Const 7)
                                     (Expr_Vacc ''t_0_i'')\<rparr>
                      (Expr_Greater (Expr_Vacc ''t_0_i'') (Expr_Const 1))
                      (Some \<lparr>va_name = ''t_0_i'', va_op = OP_PLUS, va_rhs = Expr_Const (- 1)\<rparr>)
                      [],
            end_state = \<lparr>vd_type = Type_External [], vd_name = ''t_0_i'',
                         vd_rhs = Expr_Const 1\<rparr>\<rparr>
   \<and> ex_row_store ''t_0_i_loaded'' = 0 \<and> ex_row_store ''t_0_i'' = 4
   \<and> eval_times ex_sizes
         (Expr_Cond (Expr_Vacc ''t_0_i_loaded++'') (Expr_Const 7) (Expr_Vacc ''t_0_i''))
         3 ex_row_store
       = Some ([4, 7, 7], ex_row_store(''t_0_i_loaded'' := 3))"
proof -
  have 1: True ..
  have 2: "OPENMP_SERIAL \<noteq> OPENMP_PARALLEL" by simp
  have 3: "\<not> is_postinc ''t_0_i''" by (simp add: is_postinc_def)
  have 4: "get_for_row = get_for_column \<or> get_for_row = get_for_row" by simp
  have 5: "\<forall>\<tau>. eval ex_sizes (Expr_Const 7) \<tau> = Some (7, \<tau>)" by simp
  have 6: "\<forall>\<tau> v. (7::int) = 7" by simp
  have 7: "0 \<le> ex_row_store (''t_0_i'' @ ''_loaded'')" by (simp add: ex_row_store_def)
  note t = get_for_start_with_checkpoint
    [where build = get_for_row and d = "\<lambda>\<tau>. 7" and n = 2 and end_expr = "Expr_Const 1"
       and \<sigma> = ex_row_store and rb = "''t_0_i''" and sz = ex_sizes
       and start = "Expr_Const 7" and mode = OPENMP_SERIAL and with_checkpoint = True,
     OF 1 2 3 4 5 6 7]
  then show ?thesis
    by (auto simp: get_for_row_def CYKloop_ctor_def Let_def numeral_3_eq_3 numeral_2_eq_2
        ex_row_store_def)
qed

subsection \<open>The cells visited by the traversal of one track\<close>

lemma singletrack_program:
  assumes "track < length (left_running_indices (grammar ast))"
    and "track < length (right_running_indices (grammar ast))"
    and "li = left_running_indices (grammar ast) ! track"
    and "rj = right_running_indices (grammar ast) ! track"
  shows "cyk_traversal_singlethread_singletrack track ast seq nested False SINGLETHREAD =
    Inr ([For \<lparr>vd_type = Type_Size, vd_name = rj, vd_rhs = Expr_Const 0\<rparr>
            (Expr_Less (Expr_Vacc rj) (seq_size seq)) None
            ([For \<lparr>vd_type = Type_Size, vd_name = li,
                    vd_rhs = Expr_Plus (Expr_Vacc rj) (Expr_Const 1)\<rparr>
                (Expr_Greater (Expr_Vacc li) (Expr_Const 1))
                (Some \<lparr>va_name = li, va_op = OP_PLUS, va_rhs = Expr_Const (- 1)\<rparr>)
                nested,
              Var_Decl \<lparr>vd_type = Type_Size, vd_name = li, vd_rhs = Expr_Const 1\<rparr>]
             @ nested),
          Var_Decl \<lparr>vd_type = Type_Size, vd_name = rj, vd_rhs = seq_size seq\<rparr>,
          For \<lparr>vd_type = Type_Size, vd_name = li,
                 vd_rhs = Expr_Plus (Expr_Vacc rj) (Expr_Const 1)\<rparr>
             (Expr_Greater (Expr_Vacc li) (Expr_Const 1))
             (Some \<lparr>va_name = li, va_op = OP_PLUS, va_rhs = Expr_Const (- 1)\<rparr>)
             nested,
          Var_Decl \<lparr>vd_type = Type_Size, vd_name = li, vd_rhs = Expr_Const 1\<rparr>]
         @ nested)"
  using assms
  by (simp add: cyk_traversal_singlethread_singletrack_def at_def subscript_def get_for_row_def
      get_for_column_def CYKloop_ctor_def Let_def expr_plus_def copy_statements_def)

lemma exec_cell:
  assumes "\<not> is_postinc li" and "\<not> is_postinc rj"
  shows "exec_list sz defs fuel False [cell_call li rj] st
         = Some (st\<lparr>trace := trace st @ [(''nt_tabulate_cell'', [vars st li - 1, vars st rj])]\<rparr>)"
  using assms by (simp add: cell_call_def expr_minus_def)

lemma exec_for_step:
  assumes "eval sz c (vars st) = Some (v, \<sigma>)" and "v \<noteq> 0"
    and "exec_list sz defs k False body (st\<lparr>vars := \<sigma>\<rparr>) = Some st1"
    and "step sz x inc st1 = Some st2"
  shows "exec_for sz defs (Suc k) x c inc body st = exec_for sz defs k x c inc body st2"
  using assms by simp

lemma exec_for_exit:
  assumes "eval sz c (vars st) = Some (0, \<sigma>)"
  shows "exec_for sz defs (Suc k) x c inc body st = Some (st\<lparr>vars := \<sigma>\<rparr>)"
  using assms by simp

lemma row_loop:
  assumes "li \<noteq> rj" and "\<not> is_postinc li" and "\<not> is_postinc rj"
  shows "vars st li = int k + 1 \<Longrightarrow> k < fuel \<Longrightarrow>
     exec_for sz defs fuel li (Expr_Greater (Expr_Vacc li) (Expr_Const 1))
       (Some \<lparr>va_name = li, va_op = OP_PLUS, va_rhs = Expr_Const (- 1)\<rparr>)
       [cell_call li rj] st
     = Some (st\<lparr>vars := (vars st)(li := 1),
                trace := trace st @ map (\<lambda>i. (''nt_tabulate_cell'', [int i, vars st rj])) (rev [1 ..< Suc k])\<rparr>)"
proof (induction k arbitrary: st fuel)
  case 0
  then obtain f where f: "fuel = Suc f" by (cases fuel) auto
  have "(vars st)(li := 1) = vars st" using 0 by (simp add: fun_upd_idem_iff)
  with 0 assms f show ?case by (simp add: truth_def)
next
  case (Suc k)
  then obtain f where f: "fuel = Suc f" and kf: "k < f" by (cases fuel) auto
  let ?st1 = "st\<lparr>trace := trace st @ [(''nt_tabulate_cell'', [int (Suc k), vars st rj])]\<rparr>"
  let ?st2 = "?st1\<lparr>vars := (vars st)(li := int k + 1)\<rparr>"
  have c: "eval sz (Expr_Greater (Expr_Vacc li) (Expr_Const 1)) (vars st) = Some (1, vars st)"
    using Suc.prems assms by (simp add: truth_def)
  have b: "exec_list sz defs f False [cell_call li rj] (st\<lparr>vars := vars st\<rparr>) = Some ?st1"
    using Suc.prems assms by (simp add: exec_cell)
  have s: "step sz li (Some \<lparr>va_name = li, va_op = OP_PLUS, va_rhs = Expr_Const (- 1)\<rparr>) ?st1
           = Some ?st2"
    using Suc.prems by (simp add: step_def assign_def add.commute)
  have v: "vars ?st2 li = int k + 1" by simp
  have e: "?st2\<lparr>vars := (vars ?st2)(li := 1),
                 trace := trace ?st2 @ map (\<lambda>i. (''nt_tabulate_cell'', [int i, vars ?st2 rj])) (rev [1 ..< Suc k])\<rparr>
           = st\<lparr>vars := (vars st)(li := 1),
                trace := trace st @ map (\<lambda>i. (''nt_tabulate_cell'', [int i, vars st rj]))
                                       (rev [1 ..< Suc (Suc k)])\<rparr>"
    using assms(1) by simp
  have r: "exec_for sz defs f li (Expr_Greater (Expr_Vacc li) (Expr_Const 1))
       (Some \<lparr>va_name = li, va_op = OP_PLUS, va_rhs = Expr_Const (- 1)\<rparr>)
       [cell_call li rj] ?st2
     = Some (st\<lparr>vars := (vars st)(li := 1),
                trace := trace st @ map (\<lambda>i. (''nt_tabulate_cell'', [int i, vars st rj]))
                                       (rev [1 ..< Suc (Suc k)])\<rparr>)"
    unfolding Suc.IH [OF v kf] e ..
  show ?case
    unfolding f by (subst exec_for_step [OF c _ b s]) (simp_all only: r one_neq_zero not_False_eq_True)
qed

lemma column_cells_split:
  "map visit (column_cells j)
   = map (\<lambda>i. (''nt_tabulate_cell'', [int i, int j])) (rev [1 ..< Suc j]) @ [(''nt_tabulate_cell'', [0, int j])]"
proof -
  have "[0 ..< Suc j] = 0 # [1 ..< Suc j]" by (simp add: upt_conv_Cons)
  then show ?thesis by (simp add: column_cells_def visit_def comp_def del: upt_Suc)
qed

lemma row_statement:
  assumes "li \<noteq> rj" and "\<not> is_postinc li" and "\<not> is_postinc rj"
    and "vars st rj = int j" and "j < fuel"
  shows "exec_stmt sz defs fuel
           (For \<lparr>vd_type = Type_Size, vd_name = li,
                  vd_rhs = Expr_Plus (Expr_Vacc rj) (Expr_Const 1)\<rparr>
              (Expr_Greater (Expr_Vacc li) (Expr_Const 1))
              (Some \<lparr>va_name = li, va_op = OP_PLUS, va_rhs = Expr_Const (- 1)\<rparr>)
              [cell_call li rj]) st
         = Some (st\<lparr>vars := (vars st)(li := 1),
                    trace := trace st @ map (\<lambda>i. (''nt_tabulate_cell'', [int i, int j])) (rev [1 ..< Suc j])\<rparr>)"
proof -
  let ?st1 = "st\<lparr>vars := (vars st)(li := int j + 1)\<rparr>"
  have a: "assign sz li OP_EQ (Expr_Plus (Expr_Vacc rj) (Expr_Const 1)) st = Some ?st1"
    using assms by (simp add: assign_def)
  have v: "vars ?st1 li = int j + 1" by simp
  have e: "?st1\<lparr>vars := (vars ?st1)(li := 1),
                trace := trace ?st1 @ map (\<lambda>i. (''nt_tabulate_cell'', [int i, vars ?st1 rj])) (rev [1 ..< Suc j])\<rparr>
           = st\<lparr>vars := (vars st)(li := 1),
                trace := trace st @ map (\<lambda>i. (''nt_tabulate_cell'', [int i, int j])) (rev [1 ..< Suc j])\<rparr>"
    using assms(1,4) by simp
  show ?thesis
    by (simp only: exec_stmt.simps var_decl.simps a option.case
        row_loop [OF assms(1,2,3) v assms(5)] e)
qed

lemma column_body_run:
  assumes "li \<noteq> rj" and "\<not> is_postinc li" and "\<not> is_postinc rj"
    and "vars st rj = int j" and "j < fuel"
  shows "exec_list sz defs fuel False (column_body li rj) st
         = Some (st\<lparr>vars := (vars st)(li := 1),
                    trace := trace st @ map visit (column_cells j)\<rparr>)"
proof -
  let ?st1 = "st\<lparr>vars := (vars st)(li := 1),
                 trace := trace st @ map (\<lambda>i. (''nt_tabulate_cell'', [int i, int j])) (rev [1 ..< Suc j])\<rparr>"
  have d: "exec_stmt sz defs fuel
             (Var_Decl \<lparr>vd_type = Type_Size, vd_name = li, vd_rhs = Expr_Const 1\<rparr>) ?st1
           = Some ?st1"
    by (simp add: assign_def)
  have c: "exec_list sz defs fuel False [cell_call li rj] ?st1
           = Some (st\<lparr>vars := (vars st)(li := 1),
                      trace := trace st @ map visit (column_cells j)\<rparr>)"
    using assms(1,4) by (simp add: exec_cell [OF assms(2,3)] column_cells_split)
  show ?thesis
    unfolding column_body_def
    by (simp only: exec_list.simps row_statement [OF assms] d c option.case if_False)
qed

lemma column_loop:
  assumes "li \<noteq> rj" and "\<not> is_postinc li" and "\<not> is_postinc rj"
    and "sz (vd_name seq) = n"
  shows "m = n - j \<Longrightarrow> j \<le> n \<Longrightarrow> vars st rj = int j \<Longrightarrow> n + m < fuel \<Longrightarrow>
     \<exists>st'. exec_for sz defs fuel rj (Expr_Less (Expr_Vacc rj) (seq_size seq)) None
              (column_body li rj) st = Some st'
         \<and> vars st' rj = int n
         \<and> trace st' = trace st @ map visit (concat (map column_cells [j ..< n]))"
proof (induction m arbitrary: j st fuel)
  case 0
  then obtain f where f: "fuel = Suc f" by (cases fuel) auto
  from 0 have jn: "j = n" by simp
  have c: "eval sz (Expr_Less (Expr_Vacc rj) (seq_size seq)) (vars st) = Some (0, vars st)"
    using 0 assms jn by (simp add: seq_size_def truth_def)
  show ?case
    unfolding f exec_for_exit [OF c] using 0 jn by simp
next
  case (Suc m)
  then obtain f where f: "fuel = Suc f" and nf: "n + m < f" by (cases fuel) auto
  from Suc.prems have jn: "j < n" and m: "m = n - Suc j" by simp_all
  have jf: "j < f" using jn nf by simp
  let ?st1 = "st\<lparr>vars := (vars st)(li := 1), trace := trace st @ map visit (column_cells j)\<rparr>"
  let ?st2 = "?st1\<lparr>vars := (vars ?st1)(rj := vars ?st1 rj + 1)\<rparr>"
  have c: "eval sz (Expr_Less (Expr_Vacc rj) (seq_size seq)) (vars st) = Some (1, vars st)"
    using Suc.prems assms jn by (simp add: seq_size_def truth_def)
  have b: "exec_list sz defs f False (column_body li rj) (st\<lparr>vars := vars st\<rparr>) = Some ?st1"
    using column_body_run [OF assms(1,2,3) Suc.prems(3) jf] by simp
  have s: "step sz rj None ?st1 = Some ?st2"
    by (simp add: step_def)
  have v: "vars ?st2 rj = int (Suc j)" using Suc.prems(3) assms(1) by simp
  from Suc.IH [OF m _ v nf] jn obtain st' where
    r: "exec_for sz defs f rj (Expr_Less (Expr_Vacc rj) (seq_size seq)) None
              (column_body li rj) ?st2 = Some st'"
    and r1: "vars st' rj = int n"
    and r2: "trace st' = trace ?st2 @ map visit (concat (map column_cells [Suc j ..< n]))"
    by auto
  have "[j ..< n] = j # [Suc j ..< n]" using jn by (simp add: upt_conv_Cons)
  with r2 have "trace st' = trace st @ map visit (concat (map column_cells [j ..< n]))"
    by simp
  with r r1 show ?case
    unfolding f by (subst exec_for_step [OF c _ b s]) simp_all
qed

lemma set_column_cells: "set (column_cells j) = {(i, j') . j' = j \<and> i \<le> j}"
  by (auto simp: column_cells_def)

lemma distinct_column_cells: "distinct (column_cells j)"
  by (auto simp: column_cells_def distinct_map inj_on_def)

lemma cell_order_Suc: "cell_order (Suc n) = cell_order n @ column_cells (Suc n)"
  by (simp add: cell_order_def)

lemma set_cell_order: "set (cell_order n) = {(i, j). i \<le> j \<and> j \<le> n}"
proof (induction n)
  case 0
  show ?case by (auto simp: cell_order_def column_cells_def)
next
  case (Suc n)
  then show ?case
    by (auto simp: cell_order_Suc set_column_cells)
qed

lemma distinct_cell_order: "distinct (cell_order n)"
proof (induction n)
  case 0
  show ?case by (simp add: cell_order_def column_cells_def)
next
  case (Suc n)
  then show ?case
    by (auto simp: cell_order_Suc distinct_column_cells set_cell_order set_column_cells)
qed

lemma nt_calls_cell_nt:
  "nt_calls [cell_nt li rj] lv =
     Inr (if (if li \<in> set lv then 1 else 0) + (if rj \<in> set lv then 1 else (0::nat)) = length lv
          then [cell_call li rj] else [])"
  by (simp add: cell_nt_def nt_track_def at_def subscript_def cell_call_def)

lemma add_nt_calls_fills_traversal:
  assumes "track < length (left_running_indices (grammar ast))"
    and "track < length (right_running_indices (grammar ast))"
    and "li = left_running_indices (grammar ast) ! track"
    and "rj = right_running_indices (grammar ast) ! track"
    and "li \<noteq> rj"
  shows "\<exists>bare filled top.
      cyk_traversal_singlethread_singletrack track ast seq [] False SINGLETHREAD = Inr bare
    \<and> add_nt_calls bare [] [cell_nt li rj] False SINGLETHREAD = Inr (filled, top)
    \<and> cyk_traversal_singlethread_singletrack track ast seq [cell_call li rj] False SINGLETHREAD
        = Inr (filled @ top)"
  using assms(5)
  unfolding singletrack_program [OF assms(1,2,3,4)]
  by (simp add: nt_stmts_of_def nt_calls_cell_nt cell_call_def starts_with_def Let_def
      del: nt_calls.simps)

text \<open>
  C2. For a sequence of any length \<open>n\<close> and one track, the statements built by
  \<^verbatim>\<open>cyk_traversal_singlethread_singletrack\<close> around a body that records its
  cell run to their end and record each pair \<open>(i, j)\<close> with \<open>0 \<le> i \<le> j \<le> n\<close>
  exactly once: column by column (quadrant A, the rows from the diagonal down to
  1 in the row loop, then quadrant B, row 0, after the end state of the row),
  then the last column (quadrant C, after the end state of the column) and the
  top right cell (quadrant D). The same statements are what \<^verbatim>\<open>add_nt_calls\<close>
  makes of the traversal with the empty body for a tabulated nonterminal that
  keeps both indices.
\<close>

theorem cyk_traversal_visits_every_cell_once:
  assumes "track < length (left_running_indices (grammar ast))"
    and "track < length (right_running_indices (grammar ast))"
    and "li = left_running_indices (grammar ast) ! track"
    and "rj = right_running_indices (grammar ast) ! track"
    and "li \<noteq> rj" and "\<not> is_postinc li" and "\<not> is_postinc rj"
    and "n = sz (vd_name seq)"
  shows "\<exists>bare filled top prog fuel st'.
           cyk_traversal_singlethread_singletrack track ast seq [] False SINGLETHREAD
             = Inr bare
         \<and> add_nt_calls bare [] [cell_nt li rj] False SINGLETHREAD = Inr (filled, top)
         \<and> prog = filled @ top
         \<and> cyk_traversal_singlethread_singletrack track ast seq [cell_call li rj] False
             SINGLETHREAD = Inr prog
         \<and> exec_list sz defs fuel False prog st = Some st'
         \<and> trace st' = trace st @ map visit (cell_order n)
         \<and> distinct (cell_order n)
         \<and> set (cell_order n) = {(i, j). i \<le> j \<and> j \<le> n}"
proof -
  let ?row = "For \<lparr>vd_type = Type_Size, vd_name = li,
                    vd_rhs = Expr_Plus (Expr_Vacc rj) (Expr_Const 1)\<rparr>
                (Expr_Greater (Expr_Vacc li) (Expr_Const 1))
                (Some \<lparr>va_name = li, va_op = OP_PLUS, va_rhs = Expr_Const (- 1)\<rparr>)
                [cell_call li rj]"
  let ?col = "For \<lparr>vd_type = Type_Size, vd_name = rj, vd_rhs = Expr_Const 0\<rparr>
                (Expr_Less (Expr_Vacc rj) (seq_size seq)) None (column_body li rj)"
  let ?dj = "Var_Decl \<lparr>vd_type = Type_Size, vd_name = rj, vd_rhs = seq_size seq\<rparr>"
  let ?di = "Var_Decl \<lparr>vd_type = Type_Size, vd_name = li, vd_rhs = Expr_Const 1\<rparr>"
  let ?prog = "[?col, ?dj, ?row, ?di, cell_call li rj]"
  let ?fuel = "Suc (n + n)"
  have prog: "cyk_traversal_singlethread_singletrack track ast seq [cell_call li rj] False
             SINGLETHREAD = Inr ?prog"
    using singletrack_program [OF assms(1,2,3,4), of seq "[cell_call li rj]"]
    by (simp add: column_body_def)
  have sz: "sz (vd_name seq) = n" using assms(8) by simp
  \<comment> \<open>quadrants A and B: the column loop\<close>
  let ?st0 = "st\<lparr>vars := (vars st)(rj := 0)\<rparr>"
  have "\<exists>st'. exec_for sz defs ?fuel rj (Expr_Less (Expr_Vacc rj) (seq_size seq)) None
              (column_body li rj) ?st0 = Some st'
         \<and> vars st' rj = int n
         \<and> trace st' = trace ?st0 @ map visit (concat (map column_cells [0 ..< n]))"
    by (rule column_loop [where j = 0 and m = n and sz = sz and seq = seq and n = n,
          OF assms(5,6,7) sz]) simp_all
  then obtain st1 where
    l1: "exec_for sz defs ?fuel rj (Expr_Less (Expr_Vacc rj) (seq_size seq)) None
              (column_body li rj) ?st0 = Some st1"
    and v1: "vars st1 rj = int n"
    and t1: "trace st1 = trace st @ map visit (concat (map column_cells [0 ..< n]))"
    by auto
  have e1: "exec_stmt sz defs ?fuel ?col st = Some st1"
    using l1 by (simp add: assign_def)
  \<comment> \<open>the end state of the column\<close>
  have e2: "exec_stmt sz defs ?fuel ?dj st1 = Some st1"
    using v1 sz by (simp add: assign_def seq_size_def fun_upd_idem_iff)
  \<comment> \<open>quadrant C: the row loop of the last column\<close>
  let ?st3 = "st1\<lparr>vars := (vars st1)(li := 1),
                  trace := trace st1 @ map (\<lambda>i. (''nt_tabulate_cell'', [int i, int n])) (rev [1 ..< Suc n])\<rparr>"
  have e3: "exec_stmt sz defs ?fuel ?row st1 = Some ?st3"
    by (rule row_statement [OF assms(5,6,7) v1]) simp
  \<comment> \<open>the end state of the row, and quadrant D\<close>
  have e4: "exec_stmt sz defs ?fuel ?di ?st3 = Some ?st3"
    by (simp add: assign_def)
  let ?st5 = "?st3\<lparr>trace := trace ?st3 @ [(''nt_tabulate_cell'', [0, int n])]\<rparr>"
  have e5: "exec_list sz defs ?fuel False [cell_call li rj] ?st3 = Some ?st5"
    using v1 assms(5) by (simp add: exec_cell [OF assms(6,7)])
  have run: "exec_list sz defs ?fuel False ?prog st = Some ?st5"
    by (simp only: exec_list.simps e1 e2 e3 e4 e5 option.case if_False)
  have "trace ?st5 = trace st @ map visit (concat (map column_cells [0 ..< n]))
                      @ map visit (column_cells n)"
    by (simp add: t1 column_cells_split)
  then have tr: "trace ?st5 = trace st @ map visit (cell_order n)"
    by (simp add: cell_order_def)
  from add_nt_calls_fills_traversal [OF assms(1,2,3,4,5), of seq]
  obtain bare filled top where
    b: "cyk_traversal_singlethread_singletrack track ast seq [] False SINGLETHREAD = Inr bare"
    and a: "add_nt_calls bare [] [cell_nt li rj] False SINGLETHREAD = Inr (filled, top)"
    and p: "cyk_traversal_singlethread_singletrack track ast seq [cell_call li rj] False
              SINGLETHREAD = Inr (filled @ top)"
    by blast
  from p prog have "?prog = filled @ top" by simp
  with b a prog run tr distinct_cell_order set_cell_order show ?thesis by blast
qed

text \<open>C2 at length 2: the six cells, in the order of the traversal.\<close>

theorem cyk_traversal_visits_every_cell_once_witness:
  "0 < length (left_running_indices (grammar ex_ast))
   \<and> 0 < length (right_running_indices (grammar ex_ast))
   \<and> ''t_0_i'' = left_running_indices (grammar ex_ast) ! 0
   \<and> ''t_0_j'' = right_running_indices (grammar ex_ast) ! 0
   \<and> cell_order 2 = [(0, 0), (1, 1), (0, 1), (2, 2), (1, 2), (0, 2)]
   \<and> (\<exists>bare filled top prog fuel st'.
         cyk_traversal_singlethread_singletrack 0 ex_ast (hd (seq_decls ex_ast)) []
           False SINGLETHREAD = Inr bare
       \<and> add_nt_calls bare [] [cell_nt ''t_0_i'' ''t_0_j''] False SINGLETHREAD
           = Inr (filled, top)
       \<and> prog = filled @ top
       \<and> exec_list ex_short {} fuel False prog ex_state = Some st'
       \<and> trace st' = [(''nt_tabulate_cell'', [0, 0]), (''nt_tabulate_cell'', [1, 1]), (''nt_tabulate_cell'', [0, 1]),
                       (''nt_tabulate_cell'', [2, 2]), (''nt_tabulate_cell'', [1, 2]), (''nt_tabulate_cell'', [0, 2])])"
proof -
  have 1: "0 < length (left_running_indices (grammar ex_ast))"
    and 2: "0 < length (right_running_indices (grammar ex_ast))"
    and 3: "''t_0_i'' = left_running_indices (grammar ex_ast) ! 0"
    and 4: "''t_0_j'' = right_running_indices (grammar ex_ast) ! 0"
    by (simp_all add: ex_ast_def ex_grammar_def)
  have 5: "''t_0_i'' \<noteq> ''t_0_j''" by simp
  have 6: "\<not> is_postinc ''t_0_i''" and 7: "\<not> is_postinc ''t_0_j''"
    by (simp_all add: is_postinc_def)
  have 8: "2 = ex_short (vd_name (hd (seq_decls ex_ast)))" by (simp add: ex_short_def)
  have c: "cell_order 2 = [(0, 0), (1, 1), (0, 1), (2, 2), (1, 2), (0, 2)]"
    by code_simp
  have t: "trace ex_state = []" by (simp add: ex_state_def)
  from cyk_traversal_visits_every_cell_once
         [where sz = ex_short and defs = "{}" and st = ex_state, OF 1 2 3 4 5 6 7 8]
  obtain bare filled top prog fuel st' where
    p: "cyk_traversal_singlethread_singletrack 0 ex_ast (hd (seq_decls ex_ast)) []
           False SINGLETHREAD = Inr bare"
       "add_nt_calls bare [] [cell_nt ''t_0_i'' ''t_0_j''] False SINGLETHREAD
           = Inr (filled, top)"
       "prog = filled @ top"
    and e: "exec_list ex_short {} fuel False prog ex_state = Some st'"
    and tr: "trace st' = trace ex_state @ map visit (cell_order 2)"
    by blast
  from tr have "trace st' = [(''nt_tabulate_cell'', [0, 0]), (''nt_tabulate_cell'', [1, 1]), (''nt_tabulate_cell'', [0, 1]),
                       (''nt_tabulate_cell'', [2, 2]), (''nt_tabulate_cell'', [1, 2]), (''nt_tabulate_cell'', [0, 2])]"
    by (simp add: c t visit_def)
  with p e have "\<exists>bare filled top prog fuel st'.
         cyk_traversal_singlethread_singletrack 0 ex_ast (hd (seq_decls ex_ast)) []
           False SINGLETHREAD = Inr bare
       \<and> add_nt_calls bare [] [cell_nt ''t_0_i'' ''t_0_j''] False SINGLETHREAD
           = Inr (filled, top)
       \<and> prog = filled @ top
       \<and> exec_list ex_short {} fuel False prog ex_state = Some st'
       \<and> trace st' = [(''nt_tabulate_cell'', [0, 0]), (''nt_tabulate_cell'', [1, 1]), (''nt_tabulate_cell'', [0, 1]),
                       (''nt_tabulate_cell'', [2, 2]), (''nt_tabulate_cell'', [1, 2]), (''nt_tabulate_cell'', [0, 2])]"
    by blast
  with 1 2 3 4 c show ?thesis by (intro conjI)
qed

subsection \<open>Loops and their end states\<close>

lemma loop_cond:
  assumes "\<not> is_postinc x"
    and "\<forall>v. eval sz e_end (\<sigma>(x := v)) = Some (e, \<sigma>(x := v))"
  shows "eval sz (Expr_Less (Expr_Vacc x) e_end) (\<sigma>(x := s)) = Some (truth (s < e), \<sigma>(x := s))"
    and "eval sz (Expr_Greater (Expr_Vacc x) e_end) (\<sigma>(x := s))
         = Some (truth (s > e), \<sigma>(x := s))"
proof -
  from assms(2) have ev: "eval sz e_end (\<sigma>(x := s)) = Some (e, \<sigma>(x := s))" by blast
  have rd: "eval sz (Expr_Vacc x) (\<sigma>(x := s)) = Some (s, \<sigma>(x := s))"
    using assms(1) by simp
  show "eval sz (Expr_Less (Expr_Vacc x) e_end) (\<sigma>(x := s)) = Some (truth (s < e), \<sigma>(x := s))"
    by (simp only: eval.simps(7) rd ev option.case prod.case)
  show "eval sz (Expr_Greater (Expr_Vacc x) e_end) (\<sigma>(x := s))
         = Some (truth (s > e), \<sigma>(x := s))"
    by (simp only: eval.simps(8) rd ev option.case prod.case)
qed

lemma up_loop_empty:
  assumes "\<not> is_postinc x"
    and "\<forall>v. eval sz e_end (\<sigma>(x := v)) = Some (e, \<sigma>(x := v))"
  shows "k = nat (e - s) \<Longrightarrow> s \<le> e \<Longrightarrow> k < fuel \<Longrightarrow>
     exec_for sz defs fuel x (Expr_Less (Expr_Vacc x) e_end) None [] (st\<lparr>vars := \<sigma>(x := s)\<rparr>)
       = Some (st\<lparr>vars := \<sigma>(x := e)\<rparr>)"
proof (induction k arbitrary: s fuel)
  case 0
  then obtain f where f: "fuel = Suc f" by (cases fuel) auto
  from 0 have se: "s = e" by simp
  have c: "eval sz (Expr_Less (Expr_Vacc x) e_end) (vars (st\<lparr>vars := \<sigma>(x := e)\<rparr>))
           = Some (0, \<sigma>(x := e))"
    using loop_cond(1) [OF assms, of e] by (simp add: truth_def)
  show ?case
    unfolding f se by (subst exec_for_exit [OF c]) simp
next
  case (Suc k)
  then obtain f where f: "fuel = Suc f" and kf: "k < f" by (cases fuel) auto
  from Suc.prems have lt: "s < e" and k: "k = nat (e - (s + 1))" and le: "s + 1 \<le> e"
    by simp_all
  let ?st1 = "st\<lparr>vars := \<sigma>(x := s)\<rparr>"
  let ?st2 = "st\<lparr>vars := \<sigma>(x := s + 1)\<rparr>"
  have c: "eval sz (Expr_Less (Expr_Vacc x) e_end) (vars ?st1) = Some (1, \<sigma>(x := s))"
    using loop_cond(1) [OF assms, of s] lt by (simp add: truth_def)
  have b: "exec_list sz defs f False [] (?st1\<lparr>vars := \<sigma>(x := s)\<rparr>) = Some ?st1" by simp
  have s: "step sz x None ?st1 = Some ?st2"
    by (simp add: step_def)
  show ?case
    unfolding f
    by (subst exec_for_step [OF c _ b s]) (simp_all only: Suc.IH [OF k le kf] one_neq_zero not_False_eq_True)
qed

lemma down_loop_empty:
  assumes "\<not> is_postinc x"
    and "\<forall>v. eval sz e_end (\<sigma>(x := v)) = Some (e, \<sigma>(x := v))"
  shows "k = nat (s - e) \<Longrightarrow> e \<le> s \<Longrightarrow> k < fuel \<Longrightarrow>
     exec_for sz defs fuel x (Expr_Greater (Expr_Vacc x) e_end)
       (Some \<lparr>va_name = x, va_op = OP_PLUS, va_rhs = Expr_Const (- 1)\<rparr>) []
       (st\<lparr>vars := \<sigma>(x := s)\<rparr>)
       = Some (st\<lparr>vars := \<sigma>(x := e)\<rparr>)"
proof (induction k arbitrary: s fuel)
  case 0
  then obtain f where f: "fuel = Suc f" by (cases fuel) auto
  from 0 have se: "s = e" by simp
  have c: "eval sz (Expr_Greater (Expr_Vacc x) e_end) (vars (st\<lparr>vars := \<sigma>(x := e)\<rparr>))
           = Some (0, \<sigma>(x := e))"
    using loop_cond(2) [OF assms, of e] by (simp add: truth_def)
  show ?case
    unfolding f se by (subst exec_for_exit [OF c]) simp
next
  case (Suc k)
  then obtain f where f: "fuel = Suc f" and kf: "k < f" by (cases fuel) auto
  from Suc.prems have lt: "e < s" and k: "k = nat ((s - 1) - e)" and le: "e \<le> s - 1"
    by simp_all
  let ?st1 = "st\<lparr>vars := \<sigma>(x := s)\<rparr>"
  let ?st2 = "st\<lparr>vars := \<sigma>(x := s - 1)\<rparr>"
  have c: "eval sz (Expr_Greater (Expr_Vacc x) e_end) (vars ?st1) = Some (1, \<sigma>(x := s))"
    using loop_cond(2) [OF assms, of s] lt by (simp add: truth_def)
  have b: "exec_list sz defs f False [] (?st1\<lparr>vars := \<sigma>(x := s)\<rparr>) = Some ?st1" by simp
  have s: "step sz x (Some \<lparr>va_name = x, va_op = OP_PLUS, va_rhs = Expr_Const (- 1)\<rparr>) ?st1
           = Some ?st2"
    by (simp add: step_def assign_def)
  show ?case
    unfolding f
    by (subst exec_for_step [OF c _ b s]) (simp_all only: Suc.IH [OF k le kf] one_neq_zero not_False_eq_True)
qed

lemma up_loop_statement:
  assumes "\<not> is_postinc x"
    and "eval sz se (vars st) = Some (s, \<sigma>)"
    and "\<forall>v. eval sz e_end (\<sigma>(x := v)) = Some (e, \<sigma>(x := v))"
    and "s \<le> e"
  shows "exec_stmt sz defs (Suc (nat (e - s)))
           (For \<lparr>vd_type = t, vd_name = x, vd_rhs = se\<rparr> (Expr_Less (Expr_Vacc x) e_end) None [])
           st
         = Some (st\<lparr>vars := \<sigma>(x := e)\<rparr>)"
proof -
  have a: "assign sz x OP_EQ se st = Some (st\<lparr>vars := \<sigma>(x := s)\<rparr>)"
    using assms(2) by (simp add: assign_def)
  show ?thesis
    by (simp only: exec_stmt.simps var_decl.simps a option.case
        up_loop_empty [OF assms(1,3) refl assms(4) lessI])
qed

lemma down_loop_statement:
  assumes "\<not> is_postinc x"
    and "eval sz se (vars st) = Some (s, \<sigma>)"
    and "\<forall>v. eval sz e_end (\<sigma>(x := v)) = Some (e, \<sigma>(x := v))"
    and "e \<le> s"
  shows "exec_stmt sz defs (Suc (nat (s - e)))
           (For \<lparr>vd_type = t, vd_name = x, vd_rhs = se\<rparr> (Expr_Greater (Expr_Vacc x) e_end)
              (Some \<lparr>va_name = x, va_op = OP_PLUS, va_rhs = Expr_Const (- 1)\<rparr>) [])
           st
         = Some (st\<lparr>vars := \<sigma>(x := e)\<rparr>)"
proof -
  have a: "assign sz x OP_EQ se st = Some (st\<lparr>vars := \<sigma>(x := s)\<rparr>)"
    using assms(2) by (simp add: assign_def)
  show ?thesis
    by (simp only: exec_stmt.simps var_decl.simps a option.case
        down_loop_empty [OF assms(1,3) refl assms(4) lessI])
qed

lemma end_state_of_column:
  assumes "\<forall>v. eval sz e_end (\<sigma>(x := v)) = Some (e, \<sigma>(x := v))"
  shows "exec_stmt sz defs fuel (Var_Decl \<lparr>vd_type = t, vd_name = x, vd_rhs = e_end\<rparr>)
           (st\<lparr>vars := \<sigma>(x := e)\<rparr>)
         = Some (st\<lparr>vars := \<sigma>(x := e)\<rparr>)"
proof -
  from assms have "eval sz e_end (\<sigma>(x := e)) = Some (e, \<sigma>(x := e))" by blast
  then show ?thesis by (simp add: assign_def)
qed

lemma end_state_of_row:
  "exec_stmt sz defs fuel (Var_Decl \<lparr>vd_type = t, vd_name = x, vd_rhs = Expr_Const 1\<rparr>)
           (st\<lparr>vars := \<sigma>(x := e)\<rparr>)
         = Some (st\<lparr>vars := \<sigma>(x := e)\<rparr>) \<longleftrightarrow> e = 1"
proof
  assume "exec_stmt sz defs fuel (Var_Decl \<lparr>vd_type = t, vd_name = x, vd_rhs = Expr_Const 1\<rparr>)
           (st\<lparr>vars := \<sigma>(x := e)\<rparr>)
         = Some (st\<lparr>vars := \<sigma>(x := e)\<rparr>)"
  then have "st\<lparr>vars := \<sigma>(x := 1)\<rparr> = st\<lparr>vars := \<sigma>(x := e)\<rparr>"
    by (simp add: assign_def)
  then have "vars (st\<lparr>vars := \<sigma>(x := 1)\<rparr>) x = vars (st\<lparr>vars := \<sigma>(x := e)\<rparr>) x"
    by (simp only:)
  then show "e = 1" by simp
next
  assume "e = 1"
  then show "exec_stmt sz defs fuel (Var_Decl \<lparr>vd_type = t, vd_name = x, vd_rhs = Expr_Const 1\<rparr>)
           (st\<lparr>vars := \<sigma>(x := e)\<rparr>)
         = Some (st\<lparr>vars := \<sigma>(x := e)\<rparr>)"
    by (simp add: assign_def)
qed

lemma get_for_column_end_state:
  assumes "\<not> is_postinc rb"
  shows "\<exists>r. get_for_column rb start end_expr cp mode = Inr r
      \<and> loop_var_name (loop r) = Some rb \<and> vd_name (end_state r) = rb
      \<and> vd_rhs (end_state r) = end_expr
      \<and> (\<forall>se s \<sigma> e. loop_start (loop r) = Some se \<longrightarrow> eval sz se (vars st) = Some (s, \<sigma>)
            \<longrightarrow> (\<forall>v. eval sz end_expr (\<sigma>(rb := v)) = Some (e, \<sigma>(rb := v))) \<longrightarrow> s \<le> e
            \<longrightarrow> (\<exists>fuel st1. exec_stmt sz defs fuel (loop r) st = Some st1
                    \<and> vars st1 rb = e
                    \<and> exec_stmt sz defs fuel (Var_Decl (end_state r)) st1 = Some st1))"
proof -
  define t1 where "t1 = (if cp \<and> mode \<noteq> OPENMP_PARALLEL then Type_External [] else Type_Size)"
  define s1 where "s1 = (if cp \<and> mode \<noteq> OPENMP_PARALLEL
      then Expr_Cond (Expr_Vacc (rb @ ''_loaded++'')) start (Expr_Vacc rb) else start)"
  define l where "l = For \<lparr>vd_type = t1, vd_name = rb, vd_rhs = s1\<rparr>
                          (Expr_Less (Expr_Vacc rb) end_expr) None []"
  define es where "es = \<lparr>vd_type = t1, vd_name = rb, vd_rhs = end_expr\<rparr>"
  have r: "get_for_column rb start end_expr cp mode = Inr \<lparr>loop = l, end_state = es\<rparr>"
    by (simp add: get_for_column_def CYKloop_ctor_def Let_def t1_def s1_def l_def es_def)
  have run: "\<exists>fuel st1. exec_stmt sz defs fuel l st = Some st1 \<and> vars st1 rb = e
                \<and> exec_stmt sz defs fuel (Var_Decl es) st1 = Some st1"
    if "loop_start l = Some se" and ev: "eval sz se (vars st) = Some (s, \<sigma>)"
      and pure: "\<forall>v. eval sz end_expr (\<sigma>(rb := v)) = Some (e, \<sigma>(rb := v))" and le: "s \<le> e"
    for se s \<sigma> e
  proof -
    from that(1) have se: "se = s1" by (simp add: l_def)
    have 1: "exec_stmt sz defs (Suc (nat (e - s))) l st = Some (st\<lparr>vars := \<sigma>(rb := e)\<rparr>)"
      unfolding l_def using up_loop_statement [OF assms ev [unfolded se] pure le] .
    have 2: "exec_stmt sz defs (Suc (nat (e - s))) (Var_Decl es) (st\<lparr>vars := \<sigma>(rb := e)\<rparr>)
          = Some (st\<lparr>vars := \<sigma>(rb := e)\<rparr>)"
      unfolding es_def by (rule end_state_of_column [OF pure])
    have 3: "vars (st\<lparr>vars := \<sigma>(rb := e)\<rparr>) rb = e" by simp
    from 1 2 3 show ?thesis by blast
  qed
  have "loop_var_name l = Some rb" "vd_name es = rb" "vd_rhs es = end_expr"
    by (simp_all add: l_def es_def)
  with r run show ?thesis
    by (intro exI [of _ "\<lparr>loop = l, end_state = es\<rparr>"]) auto
qed

lemma get_for_row_end_state:
  assumes "\<not> is_postinc rb"
  shows "\<exists>r. get_for_row rb start end_expr cp mode = Inr r
      \<and> loop_var_name (loop r) = Some rb \<and> vd_name (end_state r) = rb
      \<and> vd_rhs (end_state r) = Expr_Const 1
      \<and> (\<forall>se s \<sigma> e. loop_start (loop r) = Some se \<longrightarrow> eval sz se (vars st) = Some (s, \<sigma>)
            \<longrightarrow> (\<forall>v. eval sz end_expr (\<sigma>(rb := v)) = Some (e, \<sigma>(rb := v)))
            \<longrightarrow> (if mode = SINGLETHREAD_OUTSIDE then s \<le> e else e \<le> s)
            \<longrightarrow> (\<exists>fuel st1. exec_stmt sz defs fuel (loop r) st = Some st1
                    \<and> vars st1 rb = e
                    \<and> (exec_stmt sz defs fuel (Var_Decl (end_state r)) st1 = Some st1
                        \<longleftrightarrow> e = 1)))"
proof -
  define t1 where "t1 = (if cp \<and> mode \<noteq> OPENMP_PARALLEL then Type_External []
                         else if mode = OPENMP_PARALLEL then Type_Int else Type_Size)"
  define s1 where "s1 = (if cp \<and> mode \<noteq> OPENMP_PARALLEL
      then Expr_Cond (Expr_Vacc (rb @ ''_loaded++'')) start (Expr_Vacc rb) else start)"
  define l where "l = (if mode = SINGLETHREAD_OUTSIDE
      then For \<lparr>vd_type = t1, vd_name = rb, vd_rhs = s1\<rparr>
             (Expr_Less (Expr_Vacc rb) end_expr) None []
      else For \<lparr>vd_type = t1, vd_name = rb, vd_rhs = s1\<rparr>
             (Expr_Greater (Expr_Vacc rb) end_expr)
             (Some \<lparr>va_name = rb, va_op = OP_PLUS, va_rhs = Expr_Const (- 1)\<rparr>) [])"
  define es where "es = \<lparr>vd_type = t1, vd_name = rb, vd_rhs = Expr_Const 1\<rparr>"
  have r: "get_for_row rb start end_expr cp mode = Inr \<lparr>loop = l, end_state = es\<rparr>"
    by (simp add: get_for_row_def CYKloop_ctor_def Let_def t1_def s1_def l_def es_def)
  have run: "\<exists>fuel st1. exec_stmt sz defs fuel l st = Some st1 \<and> vars st1 rb = e
                \<and> (exec_stmt sz defs fuel (Var_Decl es) st1 = Some st1 \<longleftrightarrow> e = 1)"
    if "loop_start l = Some se" and ev: "eval sz se (vars st) = Some (s, \<sigma>)"
      and pure: "\<forall>v. eval sz end_expr (\<sigma>(rb := v)) = Some (e, \<sigma>(rb := v))"
      and ord: "if mode = SINGLETHREAD_OUTSIDE then s \<le> e else e \<le> s"
    for se s \<sigma> e
  proof -
    from that(1) have se: "se = s1" by (simp add: l_def split: if_splits)
    have 1: "\<exists>fuel. exec_stmt sz defs fuel l st = Some (st\<lparr>vars := \<sigma>(rb := e)\<rparr>)"
    proof (cases "mode = SINGLETHREAD_OUTSIDE")
      case True
      with ord have le: "s \<le> e" by simp
      from True up_loop_statement [OF assms ev [unfolded se] pure le, of defs t1]
      show ?thesis unfolding l_def by auto
    next
      case False
      with ord have le: "e \<le> s" by simp
      from False down_loop_statement [OF assms ev [unfolded se] pure le, of defs t1]
      show ?thesis unfolding l_def by auto
    qed
    then obtain fuel where
      1: "exec_stmt sz defs fuel l st = Some (st\<lparr>vars := \<sigma>(rb := e)\<rparr>)" by blast
    have 2: "exec_stmt sz defs fuel (Var_Decl es) (st\<lparr>vars := \<sigma>(rb := e)\<rparr>)
          = Some (st\<lparr>vars := \<sigma>(rb := e)\<rparr>) \<longleftrightarrow> e = 1"
      unfolding es_def by (rule end_state_of_row)
    have 3: "vars (st\<lparr>vars := \<sigma>(rb := e)\<rparr>) rb = e" by simp
    from 1 2 3 show ?thesis by blast
  qed
  have "loop_var_name l = Some rb" "vd_name es = rb" "vd_rhs es = Expr_Const 1"
    by (simp_all add: l_def es_def)
  with r run show ?thesis
    by (intro exI [of _ "\<lparr>loop = l, end_state = es\<rparr>"]) auto
qed

text \<open>
  What the end states hold, in general. Every loop built by
  \<^verbatim>\<open>get_for_column\<close> and \<^verbatim>\<open>get_for_row\<close>, in every mode and with or without
  checkpointing, comes with an end state that names the loop's variable (the
  constructor's assertion never fails). The end state of a column loop holds
  the loop's end bound: run from a start that does not exceed the bound, the
  loop ends with its variable at the bound, and the end state declared after it
  changes nothing. The end state of a row loop holds the constant 1 whatever
  the end bound: the loop (descending, or ascending in outside mode) ends with
  its variable at the bound, and the end state agrees with that exactly when
  the bound is 1, as it is in the single-thread and the serial traversal.
\<close>

lemma get_for_end_state:
  assumes "\<not> is_postinc rb"
  shows "(\<exists>r. get_for_column rb start end_expr cp mode = Inr r
      \<and> loop_var_name (loop r) = Some rb \<and> vd_name (end_state r) = rb
      \<and> vd_rhs (end_state r) = end_expr
      \<and> (\<forall>se s \<sigma> e. loop_start (loop r) = Some se \<longrightarrow> eval sz se (vars st) = Some (s, \<sigma>)
            \<longrightarrow> (\<forall>v. eval sz end_expr (\<sigma>(rb := v)) = Some (e, \<sigma>(rb := v))) \<longrightarrow> s \<le> e
            \<longrightarrow> (\<exists>fuel st1. exec_stmt sz defs fuel (loop r) st = Some st1
                    \<and> vars st1 rb = e
                    \<and> exec_stmt sz defs fuel (Var_Decl (end_state r)) st1 = Some st1)))
   \<and> (\<exists>r. get_for_row rb start end_expr cp mode = Inr r
      \<and> loop_var_name (loop r) = Some rb \<and> vd_name (end_state r) = rb
      \<and> vd_rhs (end_state r) = Expr_Const 1
      \<and> (\<forall>se s \<sigma> e. loop_start (loop r) = Some se \<longrightarrow> eval sz se (vars st) = Some (s, \<sigma>)
            \<longrightarrow> (\<forall>v. eval sz end_expr (\<sigma>(rb := v)) = Some (e, \<sigma>(rb := v)))
            \<longrightarrow> (if mode = SINGLETHREAD_OUTSIDE then s \<le> e else e \<le> s)
            \<longrightarrow> (\<exists>fuel st1. exec_stmt sz defs fuel (loop r) st = Some st1
                    \<and> vars st1 rb = e
                    \<and> (exec_stmt sz defs fuel (Var_Decl (end_state r)) st1 = Some st1
                        \<longleftrightarrow> e = 1))))"
  using get_for_column_end_state [OF assms] get_for_row_end_state [OF assms]
  by (intro conjI)

text \<open>
  C8. The end state of a loop is to hold the value the loop variable has when
  the loop has run out, in every mode. For the row loop of the tile interior,
  which \<^verbatim>\<open>cyk_traversal_multithread_parallel\<close> builds with start \<^verbatim>\<open>x\<close> and
  end \<^verbatim>\<open>x - tile_size\<close>, it does not: with \<^verbatim>\<open>x = 8\<close> and
  \<^verbatim>\<open>tile_size = 4\<close> the loop ends with \<^verbatim>\<open>t_0_i = 4\<close>, while the end state
  that \<^verbatim>\<open>get_for_row\<close> returns with it declares \<^verbatim>\<open>t_0_i = 1\<close>.
\<close>

theorem get_for_row_end_state_in_tile_phase:
  "get_for_row ''t_0_i'' (Expr_Vacc ''x'')
       (expr_minus (Expr_Vacc ''x'') (Expr_Vacc ''tile_size'')) False OPENMP_PARALLEL
     = Inr \<lparr>loop = ex_tile_row,
            end_state = \<lparr>vd_type = Type_Int, vd_name = ''t_0_i'', vd_rhs = Expr_Const 1\<rparr>\<rparr>
   \<and> final_value ''t_0_i'' (exec_stmt ex_sizes {} 5 ex_tile_row ex_tile_state) = Some 4
   \<and> final_value ''t_0_i''
        (exec_stmt ex_sizes {} 5
           (Var_Decl \<lparr>vd_type = Type_Int, vd_name = ''t_0_i'', vd_rhs = Expr_Const 1\<rparr>)
           ex_tile_state) = Some 1"
proof (intro conjI)
  show "get_for_row ''t_0_i'' (Expr_Vacc ''x'')
       (expr_minus (Expr_Vacc ''x'') (Expr_Vacc ''tile_size'')) False OPENMP_PARALLEL
     = Inr \<lparr>loop = ex_tile_row,
            end_state = \<lparr>vd_type = Type_Int, vd_name = ''t_0_i'', vd_rhs = Expr_Const 1\<rparr>\<rparr>"
    by code_simp
  show "final_value ''t_0_i'' (exec_stmt ex_sizes {} 5 ex_tile_row ex_tile_state) = Some 4"
    by code_simp
  show "final_value ''t_0_i''
        (exec_stmt ex_sizes {} 5
           (Var_Decl \<lparr>vd_type = Type_Int, vd_name = ''t_0_i'', vd_rhs = Expr_Const 1\<rparr>)
           ex_tile_state) = Some 1"
    by code_simp
qed

text \<open>The row loop of the single-thread traversal in column 3 and its end state.\<close>

lemma get_for_end_state_instance:
  "\<not> is_postinc ''t_0_i''
   \<and> get_for_row ''t_0_i'' (Expr_Plus (Expr_Vacc ''t_0_j'') (Expr_Const 1)) (Expr_Const 1)
        False SINGLETHREAD
       = Inr \<lparr>loop = ex_row,
              end_state = \<lparr>vd_type = Type_Size, vd_name = ''t_0_i'', vd_rhs = Expr_Const 1\<rparr>\<rparr>
   \<and> (\<exists>fuel st1. exec_stmt ex_sizes {} fuel ex_row ex_column_state = Some st1
          \<and> vars st1 ''t_0_i'' = 1
          \<and> exec_stmt ex_sizes {} fuel
               (Var_Decl \<lparr>vd_type = Type_Size, vd_name = ''t_0_i'', vd_rhs = Expr_Const 1\<rparr>) st1
             = Some st1)"
proof -
  have np: "\<not> is_postinc ''t_0_i''" by (simp add: is_postinc_def)
  have g: "get_for_row ''t_0_i'' (Expr_Plus (Expr_Vacc ''t_0_j'') (Expr_Const 1)) (Expr_Const 1)
        False SINGLETHREAD
       = Inr \<lparr>loop = ex_row,
              end_state = \<lparr>vd_type = Type_Size, vd_name = ''t_0_i'', vd_rhs = Expr_Const 1\<rparr>\<rparr>"
    by (simp add: get_for_row_def CYKloop_ctor_def Let_def ex_row_def)
  from get_for_end_state [OF np, THEN conjunct2,
      of "Expr_Plus (Expr_Vacc ''t_0_j'') (Expr_Const 1)" "Expr_Const 1" False SINGLETHREAD
         ex_sizes ex_column_state "{}"]
  obtain r where r: "get_for_row ''t_0_i'' (Expr_Plus (Expr_Vacc ''t_0_j'') (Expr_Const 1))
        (Expr_Const 1) False SINGLETHREAD = Inr r"
    and run: "\<And>se s \<sigma> e. loop_start (loop r) = Some se
        \<Longrightarrow> eval ex_sizes se (vars ex_column_state) = Some (s, \<sigma>)
        \<Longrightarrow> (\<forall>v. eval ex_sizes (Expr_Const 1) (\<sigma>(''t_0_i'' := v)) = Some (e, \<sigma>(''t_0_i'' := v)))
        \<Longrightarrow> (if SINGLETHREAD = SINGLETHREAD_OUTSIDE then s \<le> e else e \<le> s)
        \<Longrightarrow> \<exists>fuel st1. exec_stmt ex_sizes {} fuel (loop r) ex_column_state = Some st1
                \<and> vars st1 ''t_0_i'' = e
                \<and> (exec_stmt ex_sizes {} fuel (Var_Decl (end_state r)) st1 = Some st1
                    \<longleftrightarrow> e = 1)"
    by blast
  from r g have req: "r = \<lparr>loop = ex_row,
       end_state = \<lparr>vd_type = Type_Size, vd_name = ''t_0_i'', vd_rhs = Expr_Const 1\<rparr>\<rparr>"
    by simp
  have 1: "loop_start (loop r) = Some (Expr_Plus (Expr_Vacc ''t_0_j'') (Expr_Const 1))"
    by (simp add: req ex_row_def)
  have 2: "eval ex_sizes (Expr_Plus (Expr_Vacc ''t_0_j'') (Expr_Const 1)) (vars ex_column_state)
           = Some (4, vars ex_column_state)"
    by (simp add: ex_column_state_def is_postinc_def)
  have 3: "\<forall>v. eval ex_sizes (Expr_Const 1) ((vars ex_column_state)(''t_0_i'' := v))
           = Some (1, (vars ex_column_state)(''t_0_i'' := v))"
    by simp
  have 4: "if SINGLETHREAD = SINGLETHREAD_OUTSIDE then (4::int) \<le> 1 else (1::int) \<le> 4"
    by simp
  from run [OF 1 2 3 4] obtain fuel st1 where
    "exec_stmt ex_sizes {} fuel (loop r) ex_column_state = Some st1"
    "vars st1 ''t_0_i'' = 1"
    "exec_stmt ex_sizes {} fuel (Var_Decl (end_state r)) st1 = Some st1"
    by blast
  then have "\<exists>fuel st1. exec_stmt ex_sizes {} fuel ex_row ex_column_state = Some st1
          \<and> vars st1 ''t_0_i'' = 1
          \<and> exec_stmt ex_sizes {} fuel
               (Var_Decl \<lparr>vd_type = Type_Size, vd_name = ''t_0_i'', vd_rhs = Expr_Const 1\<rparr>) st1
             = Some st1"
    unfolding req by (simp only: CYKloop.simps) blast
  with np g show ?thesis by (intro conjI)
qed

end
